theory Spec2Isabelle
  imports Main "HOL-Library.AList"
begin

section \<open>Values\<close>

text \<open>
  JavaScript values as far as \<^verbatim>\<open>src/query/verb.js\<close> handles them. A verb only stores
  its parameters and hands them on, so numbers are integers here; a callable carries its
  source text when that can be retrieved; a live table handle carries the name of its
  table.
\<close>

datatype val =
    Undefined
  | Null
  | Boolean bool
  | Number int
  | Str string
  | Arr "val list"
  | Obj "(string \<times> val) list"
  | Func "string option"
  | Table string

type_synonym props = "(string \<times> val) list"

text \<open>\<^verbatim>\<open>o[k]\<close>: a property that is absent reads as \<^verbatim>\<open>undefined\<close>.\<close>

definition get_prop :: "props \<Rightarrow> string \<Rightarrow> val" where
  "get_prop ps k = (case map_of ps k of None \<Rightarrow> Undefined | Some v \<Rightarrow> v)"

text \<open>
  \<^verbatim>\<open>o[k] = v\<close>: an existing property keeps its place, a new one is appended
  (\<^const>\<open>AList.update\<close>).
\<close>

definition set_prop :: "string \<Rightarrow> val \<Rightarrow> props \<Rightarrow> props" where
  "set_prop k v ps = AList.update k v ps"

text \<open>\<^verbatim>\<open>params[index]\<close>: reading past the end of an array gives \<^verbatim>\<open>undefined\<close>.\<close>

definition param_at :: "val list \<Rightarrow> nat \<Rightarrow> val" where
  "param_at params index = (if index < length params then params ! index else Undefined)"

section \<open>Errors\<close>

text \<open>
  The four error kinds the specification names, and the \<^verbatim>\<open>TypeError\<close> JavaScript itself
  throws when a property of \<^verbatim>\<open>undefined\<close> is read or a value that is no function (no
  constructor) is called (constructed). \<^verbatim>\<open>verb.js\<close> has no \<^verbatim>\<open>throw\<close> of its own.
\<close>

datatype error =
    TypeError
  | UnknownVerbError
  | UnresolvedTableError
  | UnparsableExpressionError
  | MismatchedJoinArityError

section \<open>Parameter kinds and schemas\<close>

text \<open>
  The ten type tags \<^verbatim>\<open>verb.js\<close> imports from \<^verbatim>\<open>./constants\<close> (a file that is not among
  the sources; the tags are taken to be pairwise distinct), and \<open>Plain\<close> for any other
  tag a schema entry may carry.
\<close>

datatype kind =
    Expr
  | ExprList
  | ExprNumber
  | ExprObject
  | JoinKeys
  | JoinValues
  | Options
  | OrderbyKeys
  | TableRef
  | TableRefList
  | Plain

text \<open>
  A schema entry \<^verbatim>\<open>{ name, type, default, props }\<close>. An entry without \<^verbatim>\<open>default\<close> has
  \<open>default' = Undefined\<close>, one without \<^verbatim>\<open>props\<close> has \<open>props = []\<close>.
\<close>

record field =
  name :: string
  type :: kind
  default' :: val
  props :: "(string \<times> kind) list"

definition entry :: "string \<Rightarrow> kind \<Rightarrow> field" where
  "entry n t = \<lparr>name = n, type = t, default' = Undefined, props = []\<rparr>"

section \<open>The helpers imported from \<^verbatim>\<open>./util\<close>\<close>

text \<open>
  \<^verbatim>\<open>verb.js\<close> imports \<^verbatim>\<open>fromObject\<close>, \<^verbatim>\<open>getTable\<close>, \<^verbatim>\<open>joinKeys\<close>, \<^verbatim>\<open>joinValues\<close>,
  \<^verbatim>\<open>orderbyKeys\<close> and \<^verbatim>\<open>toObject\<close> from \<^verbatim>\<open>./util\<close>, which is not among the
  sources. The class is therefore modelled over an arbitrary implementation of them: each
  is a function that returns a value or throws. A catalog maps a stored table reference
  to a table, or to nothing.
\<close>

type_synonym catalog = "val \<Rightarrow> val option"

record util =
  fromObject :: "val \<Rightarrow> error + val"
  getTable :: "catalog \<Rightarrow> val \<Rightarrow> error + val"
  joinKeys :: "val \<Rightarrow> error + val"
  joinValues :: "val \<Rightarrow> error + val"
  orderbyKeys :: "val \<Rightarrow> error + val"
  toObject :: "val \<Rightarrow> error + val"

section \<open>The class \<^verbatim>\<open>Verb\<close>\<close>

text \<open>
  An instance has the properties \<^verbatim>\<open>verb\<close> and \<^verbatim>\<open>schema\<close> and one property per schema
  entry. The latter are kept apart in \<open>field_values\<close>, in insertion order: the model is
  the class as long as no schema entry is itself named \<^verbatim>\<open>verb\<close> or \<^verbatim>\<open>schema\<close>
  (\<open>names_ok\<close>), which holds of every schema the file declares.
\<close>

record Verb =
  verb :: string
  schema :: "field list"
  field_values :: props

definition names_ok :: "field list \<Rightarrow> bool" where
  "names_ok sch = list_all (\<lambda>s. name s \<noteq> ''verb'' \<and> name s \<noteq> ''schema'') sch"

subsection \<open>The constructor (lines 36 to 48)\<close>

text \<open>
  The conditional of lines 42 to 45: the three join and order kinds go through their
  helper, every other kind keeps the parameter.
\<close>

definition normalize :: "util \<Rightarrow> kind \<Rightarrow> val \<Rightarrow> error + val" where
  "normalize U t param =
     (if t = JoinKeys then joinKeys U param
      else if t = JoinValues then joinValues U param
      else if t = OrderbyKeys then orderbyKeys U param
      else Inr param)"

text \<open>
  The \<^verbatim>\<open>forEach\<close> of lines 39 to 47, from entry \<open>index\<close> on; \<open>this\<close> holds the properties
  set so far. A helper that throws ends the loop and the construction.
\<close>

fun init_fields :: "util \<Rightarrow> field list \<Rightarrow> val list \<Rightarrow> nat \<Rightarrow> props \<Rightarrow> error + props" where
  "init_fields U [] params index this = Inr this"
| "init_fields U (s # rest) params index this =
     (case normalize U (type s) (param_at params index) of
        Inl e \<Rightarrow> Inl e
      | Inr v \<Rightarrow>
          init_fields U rest params (Suc index)
            (set_prop (name s) (if v \<noteq> Undefined then v else default' s) this))"

text \<open>
  \<^verbatim>\<open>constructor(verb, schema = [], params = [])\<close>: an argument that is \<^verbatim>\<open>undefined\<close>
  (\<open>None\<close>) takes its default.
\<close>

definition or_empty :: "'a list option \<Rightarrow> 'a list" where
  "or_empty x = (case x of None \<Rightarrow> [] | Some xs \<Rightarrow> xs)"

definition Verb_constructor ::
  "util \<Rightarrow> string \<Rightarrow> field list option \<Rightarrow> val list option \<Rightarrow> error + Verb" where
  "Verb_constructor U v sch params =
     (case init_fields U (or_empty sch) (or_empty params) 0 [] of
        Inl e \<Rightarrow> Inl e
      | Inr this \<Rightarrow> Inr \<lparr>verb = v, schema = or_empty sch, field_values = this\<rparr>)"

subsection \<open>\<^verbatim>\<open>createVerb\<close> and the verb classes (lines 110 to 228)\<close>

text \<open>
  \<^verbatim>\<open>createVerb(name, schema)\<close> returns a subclass whose constructor passes \<^verbatim>\<open>name\<close>,
  \<^verbatim>\<open>schema\<close> and its argument list on, with \<^verbatim>\<open>schema\<close> as a static property; a call with
  no schema leaves both \<^verbatim>\<open>undefined\<close> (\<open>None\<close>).
\<close>

record verb_class =
  class_verb :: string
  class_schema :: "field list option"

definition createVerb :: "string \<Rightarrow> field list option \<Rightarrow> verb_class" where
  "createVerb n sch = \<lparr>class_verb = n, class_schema = sch\<rparr>"

text \<open>\<^verbatim>\<open>new C(...params)\<close> for a class \<open>C\<close> made by \<^verbatim>\<open>createVerb\<close>.\<close>

definition new :: "util \<Rightarrow> verb_class \<Rightarrow> val list \<Rightarrow> error + Verb" where
  "new U C params = Verb_constructor U (class_verb C) (class_schema C) (Some params)"

definition Reify :: verb_class where
  "Reify = createVerb ''reify'' None"

definition Count :: verb_class where
  "Count = createVerb ''count'' (Some [entry ''options'' Options])"

definition Dedupe :: verb_class where
  "Dedupe = createVerb ''dedupe'' (Some [(entry ''keys'' ExprList)\<lparr>default' := Arr []\<rparr>])"

definition Derive :: verb_class where
  "Derive = createVerb ''derive'' (Some [entry ''values'' ExprObject])"

definition Filter :: verb_class where
  "Filter = createVerb ''filter'' (Some [entry ''criteria'' ExprObject])"

definition Groupby :: verb_class where
  "Groupby = createVerb ''groupby'' (Some [entry ''keys'' ExprList])"

definition Orderby :: verb_class where
  "Orderby = createVerb ''orderby'' (Some [entry ''keys'' OrderbyKeys])"

definition Rollup :: verb_class where
  "Rollup = createVerb ''rollup'' (Some [entry ''values'' ExprObject])"

definition Sample :: verb_class where
  "Sample = createVerb ''sample'' (Some
     [entry ''size'' ExprNumber,
      (entry ''options'' Options)\<lparr>props := [(''weight'', Expr)]\<rparr>])"

definition Select :: verb_class where
  "Select = createVerb ''select'' (Some [entry ''columns'' ExprList])"

definition Ungroup :: verb_class where
  "Ungroup = createVerb ''ungroup'' None"

definition Unorder :: verb_class where
  "Unorder = createVerb ''unorder'' None"

definition Fold :: verb_class where
  "Fold = createVerb ''fold'' (Some [entry ''values'' ExprList, entry ''options'' Options])"

definition Pivot :: verb_class where
  "Pivot = createVerb ''pivot'' (Some
     [entry ''keys'' ExprList, entry ''values'' ExprList, entry ''options'' Options])"

definition Spread :: verb_class where
  "Spread = createVerb ''spread'' (Some [entry ''values'' ExprList, entry ''options'' Options])"

definition Unroll :: verb_class where
  "Unroll = createVerb ''unroll'' (Some
     [entry ''values'' ExprList,
      (entry ''options'' Options)\<lparr>props := [(''drop'', ExprList)]\<rparr>])"

definition Lookup :: verb_class where
  "Lookup = createVerb ''lookup'' (Some
     [entry ''table'' TableRef, entry ''on'' JoinKeys, entry ''values'' ExprList])"

definition Join :: verb_class where
  "Join = createVerb ''join'' (Some
     [entry ''table'' TableRef, entry ''on'' JoinKeys, entry ''values'' JoinValues,
      entry ''options'' Options])"

definition Cross :: verb_class where
  "Cross = createVerb ''cross'' (Some
     [entry ''table'' TableRef, entry ''values'' JoinValues, entry ''options'' Options])"

definition Semijoin :: verb_class where
  "Semijoin = createVerb ''semijoin'' (Some [entry ''table'' TableRef, entry ''on'' JoinKeys])"

definition Antijoin :: verb_class where
  "Antijoin = createVerb ''antijoin'' (Some [entry ''table'' TableRef, entry ''on'' JoinKeys])"

definition Concat :: verb_class where
  "Concat = createVerb ''concat'' (Some [entry ''tables'' TableRefList])"

definition Union :: verb_class where
  "Union = createVerb ''union'' (Some [entry ''tables'' TableRefList])"

definition Intersect :: verb_class where
  "Intersect = createVerb ''intersect'' (Some [entry ''tables'' TableRefList])"

definition Except :: verb_class where
  "Except = createVerb ''except'' (Some [entry ''tables'' TableRefList])"


subsection \<open>The registry \<^verbatim>\<open>Verbs\<close> (lines 233 to 258)\<close>

definition Verbs :: "(string \<times> verb_class) list" where
  "Verbs =
     [(''count'', Count), (''dedupe'', Dedupe), (''derive'', Derive), (''filter'', Filter),
      (''groupby'', Groupby), (''orderby'', Orderby), (''rollup'', Rollup),
      (''sample'', Sample), (''select'', Select), (''ungroup'', Ungroup),
      (''unorder'', Unorder), (''fold'', Fold), (''pivot'', Pivot), (''spread'', Spread),
      (''unroll'', Unroll), (''lookup'', Lookup), (''join'', Join), (''cross'', Cross),
      (''semijoin'', Semijoin), (''antijoin'', Antijoin), (''concat'', Concat),
      (''union'', Union), (''intersect'', Intersect), (''except'', Except)]"

text \<open>
  \<^verbatim>\<open>Verbs\<close> is an object literal, so \<^verbatim>\<open>Verbs[key]\<close> also finds what the literal inherits
  from \<^verbatim>\<open>Object.prototype\<close>: under \<^verbatim>\<open>constructor\<close> the function \<^verbatim>\<open>Object\<close>, and under the
  other names below built-in methods (and, for \<^verbatim>\<open>__proto__\<close>, the prototype object), none
  of which can be used with \<^verbatim>\<open>new\<close>. Any other key reads as \<^verbatim>\<open>undefined\<close>.
\<close>

definition Object_prototype_others :: "string list" where
  "Object_prototype_others =
     [''__proto__'', ''hasOwnProperty'', ''isPrototypeOf'', ''propertyIsEnumerable'',
      ''toLocaleString'', ''toString'', ''valueOf'', ''__defineGetter__'',
      ''__defineSetter__'', ''__lookupGetter__'', ''__lookupSetter__'']"

datatype looked_up =
    Class verb_class
  | ObjectFunction
  | NotAConstructor
  | Absent

definition Verbs_get :: "string \<Rightarrow> looked_up" where
  "Verbs_get key =
     (case map_of Verbs key of
        Some C \<Rightarrow> Class C
      | None \<Rightarrow>
          if key = ''constructor'' then ObjectFunction
          else if key \<in> set Object_prototype_others then NotAConstructor
          else Absent)"

subsection \<open>\<^verbatim>\<open>Verb.from\<close> (lines 56 to 61)\<close>

text \<open>
  \<^verbatim>\<open>xs.map(f)\<close> for an \<open>f\<close> that may throw: the elements are visited in order and the first
  exception ends the call.
\<close>

fun map_result :: "('a \<Rightarrow> error + 'b) \<Rightarrow> 'a list \<Rightarrow> error + 'b list" where
  "map_result f [] = Inr []"
| "map_result f (x # xs) =
     (case f x of
        Inl e \<Rightarrow> Inl e
      | Inr y \<Rightarrow> (case map_result f xs of Inl e \<Rightarrow> Inl e | Inr ys \<Rightarrow> Inr (y # ys)))"

text \<open>
  A serialized verb: the discriminator \<^verbatim>\<open>verb\<close>, a string, and the other properties. (As
  for \<open>Verb\<close>, no other property is named \<^verbatim>\<open>verb\<close>.)
\<close>

record plain_object =
  obj_verb :: string
  obj_props :: props

text \<open>What \<^verbatim>\<open>new Type(...params)\<close> can return: a verb, or the \<^verbatim>\<open>{}\<close> of \<^verbatim>\<open>new Object()\<close>.\<close>

datatype constructed =
    Instance Verb
  | EmptyObject

text \<open>
  Line 57 looks the class up. Line 58 reads \<^verbatim>\<open>Type.schema\<close>, which throws a
  \<^verbatim>\<open>TypeError\<close> when \<^verbatim>\<open>Type\<close> is \<^verbatim>\<open>undefined\<close>; a schema that is \<^verbatim>\<open>undefined\<close> counts as
  empty. Line 60 constructs, which throws a \<^verbatim>\<open>TypeError\<close> when \<^verbatim>\<open>Type\<close> is no
  constructor.
\<close>

definition Verb_from :: "util \<Rightarrow> plain_object \<Rightarrow> error + constructed" where
  "Verb_from U object =
     (case Verbs_get (obj_verb object) of
        Absent \<Rightarrow> Inl TypeError
      | NotAConstructor \<Rightarrow> Inl TypeError
      | ObjectFunction \<Rightarrow> Inr EmptyObject
      | Class C \<Rightarrow>
          (case map_result (\<lambda>s. fromObject U (get_prop (obj_props object) (name s)))
                  (or_empty (class_schema C)) of
             Inl e \<Rightarrow> Inl e
           | Inr params \<Rightarrow>
               (case new U C params of Inl e \<Rightarrow> Inl e | Inr v \<Rightarrow> Inr (Instance v))))"

subsection \<open>\<^verbatim>\<open>evaluate\<close> (lines 70 to 78)\<close>

text \<open>
  A table is known by its methods only: \<open>table m\<close> is the method named \<open>m\<close>, if there is
  one, as a function of the argument list that returns a value or throws.
\<close>

type_synonym table = "string \<Rightarrow> (val list \<Rightarrow> error + val) option"

text \<open>
  The callback of lines 71 to 76. \<^verbatim>\<open>value.map\<close> exists for arrays; for any other value
  the call is a \<^verbatim>\<open>TypeError\<close> (an object that brings a callable \<^verbatim>\<open>map\<close> of its own is not
  considered).
\<close>

definition resolve :: "util \<Rightarrow> catalog \<Rightarrow> Verb \<Rightarrow> field \<Rightarrow> error + val" where
  "resolve U cat this s =
     (let v = get_prop (field_values this) (name s) in
      if type s = TableRef then getTable U cat v
      else if type s = TableRefList then
        (case v of
           Arr ts \<Rightarrow>
             (case map_result (getTable U cat) ts of Inl e \<Rightarrow> Inl e | Inr rs \<Rightarrow> Inr (Arr rs))
         | _ \<Rightarrow> Inl TypeError)
      else Inr v)"

text \<open>
  Line 77: \<^verbatim>\<open>table[this.verb](...params)\<close>, a \<^verbatim>\<open>TypeError\<close> when the table has no such
  method.
\<close>

definition evaluate :: "util \<Rightarrow> Verb \<Rightarrow> table \<Rightarrow> catalog \<Rightarrow> error + val" where
  "evaluate U this tbl cat =
     (case map_result (resolve U cat this) (schema this) of
        Inl e \<Rightarrow> Inl e
      | Inr params \<Rightarrow>
          (case tbl (verb this) of None \<Rightarrow> Inl TypeError | Some m \<Rightarrow> m params))"

subsection \<open>\<^verbatim>\<open>toObject\<close> (lines 85 to 91)\<close>

text \<open>The \<^verbatim>\<open>forEach\<close> of lines 87 to 89; \<open>obj\<close> is the object built so far.\<close>

fun toObject_each :: "util \<Rightarrow> Verb \<Rightarrow> field list \<Rightarrow> plain_object \<Rightarrow> error + plain_object" where
  "toObject_each U this [] obj = Inr obj"
| "toObject_each U this (s # rest) obj =
     (case toObject U (get_prop (field_values this) (name s)) of
        Inl e \<Rightarrow> Inl e
      | Inr v \<Rightarrow>
          toObject_each U this rest (obj\<lparr>obj_props := set_prop (name s) v (obj_props obj)\<rparr>))"

definition Verb_toObject :: "util \<Rightarrow> Verb \<Rightarrow> error + plain_object" where
  "Verb_toObject U this =
     toObject_each U this (schema this) \<lparr>obj_verb = verb this, obj_props = []\<rparr>"

subsection \<open>\<^verbatim>\<open>toAST\<close> (lines 101 to 107)\<close>

text \<open>
  Syntax trees: a literal, a reference to a column, a node as the expression parser
  builds it, a sequence, and a record of named children.
\<close>

datatype ast =
    Literal val
  | Column string
  | Node string "ast list"
  | Sequence "ast list"
  | Children "(string \<times> ast) list"

record ast_object =
  ast_verb :: string
  ast_props :: "(string \<times> ast) list"

text \<open>
  \<^verbatim>\<open>toAST\<close> is imported from \<^verbatim>\<open>./to-ast\<close>, which is not among the sources either: the
  method is modelled over any function of the value, the type tag and the \<^verbatim>\<open>props\<close> of
  the entry.
\<close>

type_synonym to_ast = "val \<Rightarrow> kind \<Rightarrow> (string \<times> kind) list \<Rightarrow> error + ast"

fun toAST_each :: "to_ast \<Rightarrow> Verb \<Rightarrow> field list \<Rightarrow> ast_object \<Rightarrow> error + ast_object" where
  "toAST_each toAST this [] obj = Inr obj"
| "toAST_each toAST this (s # rest) obj =
     (case toAST (get_prop (field_values this) (name s)) (type s) (props s) of
        Inl e \<Rightarrow> Inl e
      | Inr t \<Rightarrow>
          toAST_each toAST this rest
            (obj\<lparr>ast_props := AList.update (name s) t (ast_props obj)\<rparr>))"

definition Verb_toAST :: "to_ast \<Rightarrow> Verb \<Rightarrow> error + ast_object" where
  "Verb_toAST toAST this =
     toAST_each toAST this (schema this) \<lparr>ast_verb = verb this, ast_props = []\<rparr>"


section \<open>The helpers as the specification describes them\<close>

text \<open>
  The files \<^verbatim>\<open>./util\<close> and \<^verbatim>\<open>./to-ast\<close> are missing from the sources. Where a property
  depends on what a helper does, the helper is taken from the specification's own
  description (sections 4.1 to 4.5 and 8 of \<^verbatim>\<open>spec.md\<close>).
\<close>

subsection \<open>Catalog lookup\<close>

text \<open>
  Modelled from the spec: \<^verbatim>\<open>getTable\<close> of \<^verbatim>\<open>./util\<close> is missing. Section 4.3: a stored
  table reference is replaced by \<^verbatim>\<open>catalog(name)\<close>, and evaluation fails with
  \<^verbatim>\<open>UnresolvedTableError\<close> if \<^verbatim>\<open>catalog(name)\<close> returns no table.
\<close>

definition getTable_spec :: "catalog \<Rightarrow> val \<Rightarrow> error + val" where
  "getTable_spec cat ref =
     (case cat ref of None \<Rightarrow> Inl UnresolvedTableError | Some t \<Rightarrow> Inr t)"

subsection \<open>Normalizers\<close>

text \<open>
  Modelled from the spec: the canonical form of a join specification (section 3), two
  ordered sequences \<^verbatim>\<open>{left: [...], right: [...]}\<close>, as the examples of section 8 write
  it.
\<close>

definition left_right :: "val list \<Rightarrow> val list \<Rightarrow> val" where
  "left_right l r = Obj [(''left'', Arr l), (''right'', Arr r)]"

text \<open>
  Modelled from the spec: \<^verbatim>\<open>joinKeys\<close> of \<^verbatim>\<open>./util\<close> is missing. Section 4.1:
  \<^verbatim>\<open>normalizeJoinKeys\<close> accepts a 2-element array of arrays (left list, right list), an
  error if the two lists differ in length; an array of names or expressions, used for
  both sides; or a single name or expression, used for both sides.
\<close>

definition normalizeJoinKeys :: "val \<Rightarrow> error + val" where
  "normalizeJoinKeys input =
     (case input of
        Arr [Arr l, Arr r] \<Rightarrow>
          if length l = length r then Inr (left_right l r) else Inl MismatchedJoinArityError
      | Arr xs \<Rightarrow> Inr (left_right xs xs)
      | x \<Rightarrow> Inr (left_right [x] [x]))"

text \<open>
  Modelled from the spec: \<^verbatim>\<open>joinValues\<close> of \<^verbatim>\<open>./util\<close> is missing. Section 4.1:
  \<^verbatim>\<open>normalizeJoinValues\<close> follows the same shape rules as \<^verbatim>\<open>normalizeJoinKeys\<close>; a
  combined projection map is a single value used for both sides.
\<close>

definition normalizeJoinValues :: "val \<Rightarrow> error + val" where
  "normalizeJoinValues input = normalizeJoinKeys input"

text \<open>
  Modelled from the spec: \<^verbatim>\<open>orderbyKeys\<close> of \<^verbatim>\<open>./util\<close> is missing. Section 4.1:
  \<^verbatim>\<open>normalizeOrderbyKeys\<close> accepts a single key or a list of keys and returns a list of
  \<^verbatim>\<open>{expr, direction}\<close>; here one key: a name written \<^verbatim>\<open>"-name"\<close> is descending. (The
  specification gives no representation for its other descending marker, a negation
  wrapped around a column reference, so that form is not distinguished here.)
\<close>

definition order_key :: "val \<Rightarrow> val" where
  "order_key k =
     (case k of
        Str (c # n) \<Rightarrow>
          if c = CHR ''-'' then Obj [(''expr'', Str n), (''direction'', Str ''desc'')]
          else Obj [(''expr'', k), (''direction'', Str ''asc'')]
      | _ \<Rightarrow> Obj [(''expr'', k), (''direction'', Str ''asc'')])"

text \<open>
  Modelled from the spec: section 4.1, \<^verbatim>\<open>normalizeOrderbyKeys\<close> on a single key and on a
  list of keys.
\<close>

definition normalizeOrderbyKeys :: "val \<Rightarrow> error + val" where
  "normalizeOrderbyKeys input =
     (case input of
        Arr ks \<Rightarrow> Inr (Arr (map order_key ks))
      | k \<Rightarrow> Inr (Arr [order_key k]))"

subsection \<open>Object serialization\<close>

text \<open>
  Modelled from the spec: \<^verbatim>\<open>toObject\<close> of \<^verbatim>\<open>./util\<close> is missing. Section 4.4, read by
  the shape of the value, since line 88 passes the value alone: a callable becomes a
  descriptor object carrying its source text (an expression lacking source text can be
  object-serialized too: its descriptor carries none); a table handle becomes the
  table's name string; arrays and records are serialized element by element; a name,
  like every other plain value, passes through.
\<close>

fun toObject_spec :: "val \<Rightarrow> val" where
  "toObject_spec (Func src) =
     Obj [(''expr'', (case src of None \<Rightarrow> Null | Some text \<Rightarrow> Str text))]"
| "toObject_spec (Table n) = Str n"
| "toObject_spec (Arr xs) = Arr (map toObject_spec xs)"
| "toObject_spec (Obj kvs) = Obj (map (\<lambda>(k, v). (k, toObject_spec v)) kvs)"
| "toObject_spec v = v"

text \<open>
  Modelled from the spec: \<^verbatim>\<open>fromObject\<close> of \<^verbatim>\<open>./util\<close> is missing. Section 4.4: the
  inverse of the above; an expression descriptor \<^verbatim>\<open>{expr: string, ...}\<close> becomes an
  expression retaining its source text; everything else is rebuilt as it is.
\<close>

fun fromObject_spec :: "val \<Rightarrow> val" where
  "fromObject_spec (Arr xs) = Arr (map fromObject_spec xs)"
| "fromObject_spec (Obj kvs) =
     (case map_of kvs ''expr'' of
        Some (Str text) \<Rightarrow> Func (Some text)
      | _ \<Rightarrow> Obj (map (\<lambda>(k, v). (k, fromObject_spec v)) kvs))"
| "fromObject_spec v = v"

text \<open>
  Modelled from the spec: the six helpers of \<^verbatim>\<open>./util\<close> together; the two serializers
  never throw.
\<close>

definition spec_util :: util where
  "spec_util =
     \<lparr>fromObject = (\<lambda>v. Inr (fromObject_spec v)),
      getTable = getTable_spec,
      joinKeys = normalizeJoinKeys,
      joinValues = normalizeJoinValues,
      orderbyKeys = normalizeOrderbyKeys,
      toObject = (\<lambda>v. Inr (toObject_spec v))\<rparr>"

text \<open>
  Plain data: no callable and no table handle, at any depth (the C5 predicate).
\<close>

fun plain_data :: "val \<Rightarrow> bool" where
  "plain_data (Func src) = False"
| "plain_data (Table n) = False"
| "plain_data (Arr xs) = list_all plain_data xs"
| "plain_data (Obj kvs) = list_all (\<lambda>(k, v). plain_data v) kvs"
| "plain_data v = True"


subsection \<open>Tree serialization\<close>

text \<open>
  The expression parser is an external collaborator: a function of the source text and
  the expected kind that returns a tree.
\<close>

type_synonym parser = "string \<Rightarrow> kind \<Rightarrow> ast"

text \<open>
  Modelled from the spec: section 4.5 for a value that is kept as a literal. Every field
  of the tree is fully structural and no opaque callable survives, so only plain data
  is made a literal node; for a value that holds a callable or a live handle the
  serialization fails, with the one error section 4.5 names.
\<close>

definition literal_ast :: "val \<Rightarrow> error + ast" where
  "literal_ast v = (if plain_data v then Inr (Literal v) else Inl UnparsableExpressionError)"

text \<open>
  Modelled from the spec: \<^verbatim>\<open>toAST\<close> of \<^verbatim>\<open>./to-ast\<close> is missing. Section 4.5, for a value
  in the place of an expression. An expression is a name, a callable or a descriptor
  \<^verbatim>\<open>{expr, ...}\<close> (section 3): a bare property name is an accessor of that column; the
  source text of a callable or of a descriptor is run through the parser; tree
  serialization fails with \<^verbatim>\<open>UnparsableExpressionError\<close> if the expression lacks
  retrievable source text, that is for a callable without source and for a descriptor
  whose \<^verbatim>\<open>expr\<close> is no string. A list of expressions is serialized expression by
  expression and a map of expressions value by value, under its keys, in order; the
  first failure ends the serialization. Any other value is kept as a literal.
\<close>

fun expression_ast :: "parser \<Rightarrow> kind \<Rightarrow> val \<Rightarrow> error + ast"
  and expressions_ast :: "parser \<Rightarrow> kind \<Rightarrow> val list \<Rightarrow> error + ast list"
  and expression_map_ast ::
    "parser \<Rightarrow> kind \<Rightarrow> (string \<times> val) list \<Rightarrow> error + (string \<times> ast) list"
where
  "expression_ast parse k (Str x) = Inr (Column x)"
| "expression_ast parse k (Func src) =
     (case src of
        None \<Rightarrow> Inl UnparsableExpressionError
      | Some text \<Rightarrow> Inr (parse text k))"
| "expression_ast parse k (Obj d) =
     (case map_of d ''expr'' of
        Some x \<Rightarrow>
          (case x of
             Str text \<Rightarrow> Inr (parse text k)
           | _ \<Rightarrow> Inl UnparsableExpressionError)
      | None \<Rightarrow>
          (case expression_map_ast parse k d of
             Inl e \<Rightarrow> Inl e
           | Inr ts \<Rightarrow> Inr (Children ts)))"
| "expression_ast parse k (Arr es) =
     (case expressions_ast parse k es of
        Inl e \<Rightarrow> Inl e
      | Inr ts \<Rightarrow> Inr (Sequence ts))"
| "expression_ast parse k Undefined = literal_ast Undefined"
| "expression_ast parse k Null = literal_ast Null"
| "expression_ast parse k (Boolean b) = literal_ast (Boolean b)"
| "expression_ast parse k (Number n) = literal_ast (Number n)"
| "expression_ast parse k (Table n) = literal_ast (Table n)"
| "expressions_ast parse k [] = Inr []"
| "expressions_ast parse k (e # es) =
     (case expression_ast parse k e of
        Inl x \<Rightarrow> Inl x
      | Inr t \<Rightarrow>
          (case expressions_ast parse k es of Inl x \<Rightarrow> Inl x | Inr ts \<Rightarrow> Inr (t # ts)))"
| "expression_map_ast parse k [] = Inr []"
| "expression_map_ast parse k (p # ps) =
     (case expression_ast parse k (snd p) of
        Inl x \<Rightarrow> Inl x
      | Inr t \<Rightarrow>
          (case expression_map_ast parse k ps of
             Inl x \<Rightarrow> Inl x
           | Inr ts \<Rightarrow> Inr ((fst p, t) # ts)))"

text \<open>
  Modelled from the spec: the expression kinds of section 3, \<^verbatim>\<open>expression\<close>,
  \<^verbatim>\<open>expression-list\<close>, \<^verbatim>\<open>expression-map\<close> and \<^verbatim>\<open>expression-number\<close>.
\<close>

definition is_expression_kind :: "kind \<Rightarrow> bool" where
  "is_expression_kind k = (k = Expr \<or> k = ExprList \<or> k = ExprObject \<or> k = ExprNumber)"

text \<open>
  Modelled from the spec: section 4.5 for join keys and join values, a composite node
  with ordered \<^verbatim>\<open>left\<close> and \<^verbatim>\<open>right\<close> children, each leaf parsed as an expression. A
  value that is not of the canonical shape is itself serialized as an expression.
\<close>

definition join_ast :: "parser \<Rightarrow> kind \<Rightarrow> val \<Rightarrow> error + ast" where
  "join_ast parse k v =
     (case v of
        Obj m \<Rightarrow>
          (case (map_of m ''left'', map_of m ''right'') of
             (Some (Arr l), Some (Arr r)) \<Rightarrow>
               (case expressions_ast parse k l of
                  Inl e \<Rightarrow> Inl e
                | Inr ls \<Rightarrow>
                    (case expressions_ast parse k r of
                       Inl e \<Rightarrow> Inl e
                     | Inr rs \<Rightarrow>
                         Inr (Children [(''left'', Sequence ls), (''right'', Sequence rs)])))
           | _ \<Rightarrow> expression_ast parse k v)
      | _ \<Rightarrow> expression_ast parse k v)"

text \<open>
  Modelled from the spec: section 4.5 for one ordering key, a node with an \<^verbatim>\<open>expr\<close>
  child, parsed as an expression, and the \<^verbatim>\<open>direction\<close>. A key that is no such pair
  is itself serialized as an expression.
\<close>

definition order_key_ast :: "parser \<Rightarrow> val \<Rightarrow> error + ast" where
  "order_key_ast parse key =
     (case key of
        Obj m \<Rightarrow>
          (case expression_ast parse OrderbyKeys (get_prop m ''expr'') of
             Inl e \<Rightarrow> Inl e
           | Inr t \<Rightarrow>
               (case literal_ast (get_prop m ''direction'') of
                  Inl e \<Rightarrow> Inl e
                | Inr d \<Rightarrow> Inr (Children [(''expr'', t), (''direction'', d)])))
      | _ \<Rightarrow> expression_ast parse OrderbyKeys key)"

text \<open>Modelled from the spec: section 4.5 for ordering keys, the sequence of their nodes.\<close>

definition orderby_ast :: "parser \<Rightarrow> val \<Rightarrow> error + ast" where
  "orderby_ast parse v =
     (case v of
        Arr ks \<Rightarrow>
          (case map_result (order_key_ast parse) ks of
             Inl e \<Rightarrow> Inl e
           | Inr ts \<Rightarrow> Inr (Sequence ts))
      | _ \<Rightarrow> expression_ast parse OrderbyKeys v)"

text \<open>
  Modelled from the spec: section 4.5 for one option of an option bag; the sub-kinds of
  the schema entry decide whether the option is parsed as an expression or kept as a
  literal.
\<close>

definition option_ast :: "parser \<Rightarrow> (string \<times> kind) list \<Rightarrow> string \<Rightarrow> val \<Rightarrow> error + ast" where
  "option_ast parse sub k v =
     (case map_of sub k of
        None \<Rightarrow> literal_ast v
      | Some t \<Rightarrow> if is_expression_kind t then expression_ast parse t v else literal_ast v)"

text \<open>Modelled from the spec: section 4.5 for option bags, a node per option, in order.\<close>

fun options_each :: "parser \<Rightarrow> (string \<times> kind) list \<Rightarrow> (string \<times> val) list \<Rightarrow> error + (string \<times> ast) list" where
  "options_each parse sub [] = Inr []"
| "options_each parse sub ((k, v) # kvs) =
     (case option_ast parse sub k v of
        Inl e \<Rightarrow> Inl e
      | Inr t \<Rightarrow>
          (case options_each parse sub kvs of Inl e \<Rightarrow> Inl e | Inr ts \<Rightarrow> Inr ((k, t) # ts)))"

text \<open>Modelled from the spec: section 4.5 for an option-bag field.\<close>

definition options_ast :: "parser \<Rightarrow> (string \<times> kind) list \<Rightarrow> val \<Rightarrow> error + ast" where
  "options_ast parse sub v =
     (case v of
        Obj m \<Rightarrow>
          (case options_each parse sub m of Inl e \<Rightarrow> Inl e | Inr ts \<Rightarrow> Inr (Children ts))
      | _ \<Rightarrow> literal_ast v)"

text \<open>
  Modelled from the spec: section 4.5 for a table reference, a plain name literal (no
  table is resolved): the name of a handle, or the stored name.
\<close>

definition table_ast :: "val \<Rightarrow> error + ast" where
  "table_ast v = (case v of Table n \<Rightarrow> Inr (Literal (Str n)) | _ \<Rightarrow> literal_ast v)"

text \<open>Modelled from the spec: section 4.5 for a list of table references.\<close>

definition tables_ast :: "val \<Rightarrow> error + ast" where
  "tables_ast v =
     (case v of
        Arr ts \<Rightarrow>
          (case map_result table_ast ts of Inl e \<Rightarrow> Inl e | Inr ns \<Rightarrow> Inr (Sequence ns))
      | _ \<Rightarrow> table_ast v)"

text \<open>
  Modelled from the spec: \<^verbatim>\<open>toAST(value, type, props)\<close> of \<^verbatim>\<open>./to-ast\<close>, by the kind of
  the field (section 4.5); a plain field passes through as a literal.
\<close>

definition toAST_spec :: "parser \<Rightarrow> to_ast" where
  "toAST_spec parse v k sub =
     (if is_expression_kind k then expression_ast parse k v
      else if k = JoinKeys \<or> k = JoinValues then join_ast parse k v
      else if k = OrderbyKeys then orderby_ast parse v
      else if k = Options then options_ast parse sub v
      else if k = TableRef then table_ast v
      else if k = TableRefList then tables_ast v
      else literal_ast v)"



text \<open>
  A tree is fully structural when every literal in it is plain data.
\<close>

fun structural :: "ast \<Rightarrow> bool" where
  "structural (Literal v) = plain_data v"
| "structural (Column x) = True"
| "structural (Node label ts) = list_all structural ts"
| "structural (Sequence ts) = list_all structural ts"
| "structural (Children ts) = list_all (\<lambda>p. structural (snd p)) ts"


section \<open>The methods on a heap\<close>

text \<open>
  To state what a call leaves unchanged, the three methods are also written with the
  objects they touch in a store: \<open>this\<close> is an address, \<^verbatim>\<open>const obj = { verb: this.verb }\<close>
  allocates a new object, and \<^verbatim>\<open>obj[name] = ...\<close> writes to the store. Each iteration reads
  \<^verbatim>\<open>this[name]\<close> from the store again, as the source does. A result is \<open>None\<close> only when
  an address does not hold the kind of object the method expects.
\<close>

datatype cell =
    VerbCell Verb
  | ObjectCell plain_object
  | TreeCell ast_object

type_synonym heap = "cell list"

definition alloc :: "cell \<Rightarrow> heap \<Rightarrow> nat \<times> heap" where
  "alloc c h = (length h, h @ [c])"

definition verb_at :: "heap \<Rightarrow> nat \<Rightarrow> Verb option" where
  "verb_at h a =
     (if a < length h then (case h ! a of VerbCell v \<Rightarrow> Some v | _ \<Rightarrow> None) else None)"

definition object_at :: "heap \<Rightarrow> nat \<Rightarrow> plain_object option" where
  "object_at h a =
     (if a < length h then (case h ! a of ObjectCell obj \<Rightarrow> Some obj | _ \<Rightarrow> None) else None)"

definition tree_at :: "heap \<Rightarrow> nat \<Rightarrow> ast_object option" where
  "tree_at h a =
     (if a < length h then (case h ! a of TreeCell obj \<Rightarrow> Some obj | _ \<Rightarrow> None) else None)"

text \<open>What a call gives back: a value, or the address of the object it built.\<close>

datatype returned =
    Value val
  | Ref nat

type_synonym outcome = "((error + returned) \<times> heap) option"

text \<open>\<^verbatim>\<open>evaluate\<close> allocates nothing in the store and writes nothing.\<close>

definition evaluate_at :: "util \<Rightarrow> nat \<Rightarrow> table \<Rightarrow> catalog \<Rightarrow> heap \<Rightarrow> outcome" where
  "evaluate_at U this tbl cat h =
     (case verb_at h this of
        None \<Rightarrow> None
      | Some v \<Rightarrow>
          Some ((case evaluate U v tbl cat of Inl e \<Rightarrow> Inl e | Inr r \<Rightarrow> Inr (Value r)), h))"

fun toObject_loop :: "util \<Rightarrow> nat \<Rightarrow> nat \<Rightarrow> field list \<Rightarrow> heap \<Rightarrow> outcome" where
  "toObject_loop U this obj [] h = Some (Inr (Ref obj), h)"
| "toObject_loop U this obj (s # rest) h =
     (case verb_at h this of
        None \<Rightarrow> None
      | Some v \<Rightarrow>
          (case toObject U (get_prop (field_values v) (name s)) of
             Inl e \<Rightarrow> Some (Inl e, h)
           | Inr x \<Rightarrow>
               (case object_at h obj of
                  None \<Rightarrow> None
                | Some ob \<Rightarrow>
                    toObject_loop U this obj rest
                      (h[obj := ObjectCell (ob\<lparr>obj_props := set_prop (name s) x (obj_props ob)\<rparr>)]))))"

definition toObject_at :: "util \<Rightarrow> nat \<Rightarrow> heap \<Rightarrow> outcome" where
  "toObject_at U this h =
     (case verb_at h this of
        None \<Rightarrow> None
      | Some v \<Rightarrow>
          (case alloc (ObjectCell \<lparr>obj_verb = verb v, obj_props = []\<rparr>) h of
             (obj, h') \<Rightarrow> toObject_loop U this obj (schema v) h'))"

fun toAST_loop :: "to_ast \<Rightarrow> nat \<Rightarrow> nat \<Rightarrow> field list \<Rightarrow> heap \<Rightarrow> outcome" where
  "toAST_loop toAST this obj [] h = Some (Inr (Ref obj), h)"
| "toAST_loop toAST this obj (s # rest) h =
     (case verb_at h this of
        None \<Rightarrow> None
      | Some v \<Rightarrow>
          (case toAST (get_prop (field_values v) (name s)) (type s) (props s) of
             Inl e \<Rightarrow> Some (Inl e, h)
           | Inr t \<Rightarrow>
               (case tree_at h obj of
                  None \<Rightarrow> None
                | Some ob \<Rightarrow>
                    toAST_loop toAST this obj rest
                      (h[obj := TreeCell (ob\<lparr>ast_props := AList.update (name s) t (ast_props ob)\<rparr>)]))))"

definition toAST_at :: "to_ast \<Rightarrow> nat \<Rightarrow> heap \<Rightarrow> outcome" where
  "toAST_at toAST this h =
     (case verb_at h this of
        None \<Rightarrow> None
      | Some v \<Rightarrow>
          (case alloc (TreeCell \<lparr>ast_verb = verb v, ast_props = []\<rparr>) h of
             (obj, h') \<Rightarrow> toAST_loop toAST this obj (schema v) h'))"

text \<open>
  A caller may call the three methods in any order, any number of times; a call that
  throws leaves the store as it was when it threw.
\<close>

datatype call =
    Evaluate table catalog
  | ToObject
  | ToAST

definition invoke :: "util \<Rightarrow> to_ast \<Rightarrow> nat \<Rightarrow> call \<Rightarrow> heap \<Rightarrow> outcome" where
  "invoke U toAST this c h =
     (case c of
        Evaluate tbl cat \<Rightarrow> evaluate_at U this tbl cat h
      | ToObject \<Rightarrow> toObject_at U this h
      | ToAST \<Rightarrow> toAST_at toAST this h)"

fun run :: "util \<Rightarrow> to_ast \<Rightarrow> nat \<Rightarrow> call list \<Rightarrow> heap \<Rightarrow> heap option" where
  "run U toAST this [] h = Some h"
| "run U toAST this (c # cs) h =
     (case invoke U toAST this c h of
        None \<Rightarrow> None
      | Some (r, h') \<Rightarrow> run U toAST this cs h')"


section \<open>Construction as the specification words it\<close>

text \<open>
  Section 4.2 of the specification, for comparison with \<open>Verb_constructor\<close>: the
  normalizer a kind requires, and the value stored for one entry. The specification
  stores \<^verbatim>\<open>value ?? default\<close> (\<open>nullish_coalesce\<close>); the source stores the default only
  for \<^verbatim>\<open>undefined\<close> (\<open>unless_undefined\<close>).
\<close>

definition normalizer_for :: "util \<Rightarrow> kind \<Rightarrow> val \<Rightarrow> error + val" where
  "normalizer_for U k =
     (case k of
        JoinKeys \<Rightarrow> joinKeys U
      | JoinValues \<Rightarrow> joinValues U
      | OrderbyKeys \<Rightarrow> orderbyKeys U
      | _ \<Rightarrow> Inr)"

definition nullish_coalesce :: "val \<Rightarrow> val \<Rightarrow> val" where
  "nullish_coalesce v d = (if v = Undefined \<or> v = Null then d else v)"

definition unless_undefined :: "val \<Rightarrow> val \<Rightarrow> val" where
  "unless_undefined v d = (if v = Undefined then d else v)"

definition stored :: "util \<Rightarrow> val list \<Rightarrow> nat \<times> field \<Rightarrow> error + val" where
  "stored U params is =
     (case normalizer_for U (type (snd is)) (param_at params (fst is)) of
        Inl e \<Rightarrow> Inl e
      | Inr v \<Rightarrow> Inr (unless_undefined v (default' (snd is))))"

text \<open>
  The entries are processed in schema order, entry \<open>i\<close> with \<^verbatim>\<open>params[i]\<close>; the first
  normalizer that fails ends the construction; otherwise the values are assigned to the
  properties named by the entries, in schema order (\<^const>\<open>AList.updates\<close>: one value
  per entry when the names differ; of two entries with one name the later one stays).
\<close>

definition construct :: "util \<Rightarrow> string \<Rightarrow> field list \<Rightarrow> val list \<Rightarrow> error + Verb" where
  "construct U n sch params =
     (case map_result (stored U params) (enumerate 0 sch) of
        Inl e \<Rightarrow> Inl e
      | Inr vs \<Rightarrow>
          Inr \<lparr>verb = n, schema = sch, field_values = AList.updates (map name sch) vs []\<rparr>)"

section \<open>Evaluation as the specification words it\<close>

text \<open>
  Section 4.3: \<open>a\<close> is the resolved argument for the entry \<open>s\<close> of the verb: the looked-up
  table for a table reference, the list of the looked-up tables for a list of table
  references, and the stored value for every other kind. The lookup is \<^verbatim>\<open>getTable\<close>; for
  the \<^verbatim>\<open>getTable\<close> of the specification it is the catalog's answer.
\<close>

definition resolved ::
  "(catalog \<Rightarrow> val \<Rightarrow> error + val) \<Rightarrow> catalog \<Rightarrow> Verb \<Rightarrow> field \<Rightarrow> val \<Rightarrow> bool" where
  "resolved lookup cat this s a =
     (case type s of
        TableRef \<Rightarrow> lookup cat (get_prop (field_values this) (name s)) = Inr a
      | TableRefList \<Rightarrow>
          (case (get_prop (field_values this) (name s), a) of
             (Arr ts, Arr rs) \<Rightarrow> list_all2 (\<lambda>t r. lookup cat t = Inr r) ts rs
           | _ \<Rightarrow> False)
      | _ \<Rightarrow> a = get_prop (field_values this) (name s))"

section \<open>The round trip, field by field\<close>

text \<open>
  What \<^verbatim>\<open>Verb.from(v.toObject())\<close> makes of the value \<open>f\<close> stored for the entry \<open>s\<close>:
  \<^verbatim>\<open>toObject\<close> serializes it (line 88), \<^verbatim>\<open>fromObject\<close> deserializes it (line 59), and the
  constructor normalizes the result by kind and stores it or the default (lines 42 to
  46).
\<close>

definition normalized_or_default :: "util \<Rightarrow> field \<times> val \<Rightarrow> error + val" where
  "normalized_or_default U sy =
     (case normalize U (type (fst sy)) (snd sy) of
        Inl e \<Rightarrow> Inl e
      | Inr z \<Rightarrow> Inr (if z \<noteq> Undefined then z else default' (fst sy)))"

definition rebuilt :: "util \<Rightarrow> field \<Rightarrow> val \<Rightarrow> error + val" where
  "rebuilt U s f =
     (case toObject U f of
        Inl e \<Rightarrow> Inl e
      | Inr x \<Rightarrow>
          (case fromObject U x of
             Inl e \<Rightarrow> Inl e
           | Inr y \<Rightarrow> normalized_or_default U (s, y)))"

section \<open>Examples\<close>

text \<open>
  A catalog with the two tables of the example page (\<^verbatim>\<open>docs/example/index.html\<close>), and a
  table whose \<^verbatim>\<open>semijoin\<close> and \<^verbatim>\<open>concat\<close> methods return the list of the arguments they
  were called with.
\<close>

definition example_catalog :: catalog where
  "example_catalog ref =
     (if ref = Str ''beers'' then Some (Table ''beers'')
      else if ref = Str ''breweries'' then Some (Table ''breweries'')
      else None)"

definition arguments :: "val list \<Rightarrow> error + val" where
  "arguments args = Inr (Arr args)"

definition example_table :: table where
  "example_table m = (if m = ''semijoin'' \<or> m = ''concat'' then Some arguments else None)"

text \<open>
  The verb of \<^verbatim>\<open>breweries.semijoin('beers', 'id')\<close> and the verb of
  \<^verbatim>\<open>concat(['beers', 'breweries'])\<close>, as the constructor builds them with the normalizers
  of the specification.
\<close>

definition semijoin_beers :: Verb where
  "semijoin_beers =
     \<lparr>verb = ''semijoin'',
      schema = [entry ''table'' TableRef, entry ''on'' JoinKeys],
      field_values =
        [(''table'', Str ''beers''), (''on'', left_right [Str ''id''] [Str ''id''])]\<rparr>"

definition concat_both :: Verb where
  "concat_both =
     \<lparr>verb = ''concat'',
      schema = [entry ''tables'' TableRefList],
      field_values = [(''tables'', Arr [Str ''beers'', Str ''breweries''])]\<rparr>"

text \<open>A parser that wraps the source text in a node.\<close>

definition example_parser :: parser where
  "example_parser text k = Node text []"

text \<open>The name a stored table reference stands for: a name, or the name of a handle.\<close>

definition table_name :: "val \<Rightarrow> string option" where
  "table_name ref = (case ref of Str n \<Rightarrow> Some n | Table n \<Rightarrow> Some n | _ \<Rightarrow> None)"

section \<open>Basic facts\<close>

subsection \<open>Properties of objects\<close>

lemma update_fresh: "k \<notin> fst ` set ps \<Longrightarrow> AList.update k v ps = ps @ [(k, v)]"
  by (induction ps) auto

lemma update_list_all:
  "list_all (\<lambda>(k, v). P v) ps \<Longrightarrow> P x \<Longrightarrow> list_all (\<lambda>(k, v). P v) (AList.update k x ps)"
  by (induction ps) auto

lemma get_prop_update:
  "get_prop (AList.update k x ps) k' = (if k' = k then x else get_prop ps k')"
  by (simp add: get_prop_def update_conv')

subsection \<open>Mapping a function that may throw\<close>

lemma map_result_Inr: "map_result f xs = Inr ys \<longleftrightarrow> list_all2 (\<lambda>x y. f x = Inr y) xs ys"
proof (induction xs arbitrary: ys)
  case Nil
  then show ?case by auto
next
  case (Cons x xs)
  show ?case
    by (auto simp: list_all2_Cons1 Cons.IH [symmetric] split: sum.splits)
qed

lemma map_result_error:
  "map_result f xs = Inl e \<Longrightarrow> \<exists>x \<in> set xs. f x = Inl e"
  by (induction xs) (auto split: sum.splits)


subsection \<open>The declared classes\<close>

lemmas class_defs =
  Reify_def Count_def Dedupe_def Derive_def Filter_def Groupby_def Orderby_def Rollup_def
  Sample_def Select_def Ungroup_def Unorder_def Fold_def Pivot_def Spread_def Unroll_def
  Lookup_def Join_def Cross_def Semijoin_def Antijoin_def Concat_def Union_def Intersect_def
  Except_def

lemma Verbs_keys:
  "map fst Verbs =
     [''count'', ''dedupe'', ''derive'', ''filter'', ''groupby'', ''orderby'', ''rollup'',
      ''sample'', ''select'', ''ungroup'', ''unorder'', ''fold'', ''pivot'', ''spread'',
      ''unroll'', ''lookup'', ''join'', ''cross'', ''semijoin'', ''antijoin'', ''concat'',
      ''union'', ''intersect'', ''except'']"
  by (simp add: Verbs_def)

text \<open>
  Every class is registered under its own verb name, and no declared schema names an
  entry \<^verbatim>\<open>verb\<close> or \<^verbatim>\<open>schema\<close> or names two entries alike.
\<close>

lemma Verbs_own_names: "list_all (\<lambda>(k, C). class_verb C = k) Verbs"
  by (simp add: Verbs_def class_defs createVerb_def)

lemma declared_schemas_ok:
  "list_all (\<lambda>C. names_ok (or_empty (class_schema C)) \<and> distinct (map name (or_empty (class_schema C))))
     (Reify # map snd Verbs)"
  by (simp add: Verbs_def class_defs createVerb_def or_empty_def names_ok_def entry_def)


section \<open>Construction\<close>

text \<open>
  C9. \<^verbatim>\<open>new Dedupe()\<close>, with no argument, is a verb whose \<^verbatim>\<open>keys\<close> is the empty list:
  the missing parameter reads as \<^verbatim>\<open>undefined\<close>, the kind of \<^verbatim>\<open>keys\<close> has no normalizer,
  and the default of the schema entry is stored. This holds whatever the helpers of
  \<^verbatim>\<open>./util\<close> do.
\<close>

theorem Dedupe_no_arguments:
  "new U Dedupe [] =
     Inr \<lparr>verb = ''dedupe'',
          schema = [\<lparr>name = ''keys'', type = ExprList, default' = Arr [], props = []\<rparr>],
          field_values = [(''keys'', Arr [])]\<rparr>"
  by (simp add: new_def Dedupe_def createVerb_def Verb_constructor_def or_empty_def
      entry_def normalize_def param_at_def set_prop_def)


lemma normalize_normalizer_for: "normalize U k p = normalizer_for U k p"
  by (cases k) (simp_all add: normalize_def normalizer_for_def)

text \<open>
  The loop of the constructor, started at any index with any properties already set.
\<close>

lemma init_fields_updates:
  "init_fields U sch params i this =
     (case map_result (stored U params) (enumerate i sch) of
        Inl e \<Rightarrow> Inl e
      | Inr vs \<Rightarrow> Inr (AList.updates (map name sch) vs this))"
proof (induction sch arbitrary: i this)
  case Nil
  then show ?case by simp
next
  case (Cons s rest)
  show ?case
  proof (cases "normalizer_for U (type s) (param_at params i)")
    case (Inl e)
    then show ?thesis by (simp add: normalize_normalizer_for stored_def)
  next
    case (Inr v)
    let ?x = "unless_undefined v (default' s)"
    have step: "init_fields U (s # rest) params i this =
        init_fields U rest params (Suc i) (AList.update (name s) ?x this)"
      using Inr by (simp add: normalize_normalizer_for set_prop_def unless_undefined_def)
    have here: "stored U params (i, s) = Inr ?x"
      using Inr by (simp add: stored_def)
    show ?thesis
      unfolding step Cons.IH
      by (simp add: here split: sum.splits)
  qed
qed

text \<open>When the names differ and are new, the assignments append one property each.\<close>

lemma updates_fresh:
  "distinct ks \<Longrightarrow> length vs = length ks \<Longrightarrow> (\<forall>k \<in> set ks. k \<notin> fst ` set ps) \<Longrightarrow>
   AList.updates ks vs ps = ps @ zip ks vs"
proof (induction ks arbitrary: vs ps)
  case Nil
  then show ?case by simp
next
  case (Cons k ks)
  then obtain v vs' where vs: "vs = v # vs'"
    by (cases vs) auto
  have "AList.updates ks vs' (ps @ [(k, v)]) = (ps @ [(k, v)]) @ zip ks vs'"
    using Cons.prems vs by (intro Cons.IH) auto
  then show ?case
    using Cons.prems vs by (simp add: update_fresh)
qed

lemma map_result_length: "map_result f xs = Inr ys \<Longrightarrow> length ys = length xs"
  by (simp add: map_result_Inr list_all2_lengthD)

lemma init_fields_construct:
  assumes "distinct (map name sch)" and "\<forall>s \<in> set sch. name s \<notin> fst ` set this"
  shows "init_fields U sch params i this =
     (case map_result (stored U params) (enumerate i sch) of
        Inl e \<Rightarrow> Inl e
      | Inr vs \<Rightarrow> Inr (this @ zip (map name sch) vs))"
proof (cases "map_result (stored U params) (enumerate i sch)")
  case (Inl e)
  then show ?thesis by (simp add: init_fields_updates)
next
  case (Inr vs)
  then have "length vs = length (map name sch)"
    by (simp add: map_result_length)
  then have "AList.updates (map name sch) vs this = this @ zip (map name sch) vs"
    using assms by (intro updates_fresh) auto
  then show ?thesis
    using Inr by (simp add: init_fields_updates)
qed

text \<open>
  C3 (as amended). For every verb name, schema and parameter list, the constructor
  processes the schema entries in order: entry \<open>i\<close> receives \<^verbatim>\<open>params[i]\<close> (or
  \<^verbatim>\<open>undefined\<close>), a join-keys, join-values or orderby-keys value goes through its
  normalizer and every other kind passes unchanged, and the value stored is the
  normalized value unless that is \<^verbatim>\<open>undefined\<close>, in which case it is the schema default.
  (\<^verbatim>\<open>null\<close> is stored as it is: the test is \<^verbatim>\<open>value !== undefined\<close>, not \<^verbatim>\<open>??\<close>.) A
  missing schema or parameter list counts as empty. No entry of the schema is named
  \<^verbatim>\<open>verb\<close> or \<^verbatim>\<open>schema\<close>.
\<close>

theorem constructor_in_schema_order:
  assumes "names_ok (or_empty sch)"
  shows "Verb_constructor U n sch params = construct U n (or_empty sch) (or_empty params)"
  by (simp add: Verb_constructor_def construct_def init_fields_updates split: sum.splits)

text \<open>
  The theorem at \<^verbatim>\<open>new Semijoin('beers', [['id'], ['brewery']])\<close> with the normalizers of
  the specification.
\<close>

theorem constructor_in_schema_order_witness:
  "names_ok (or_empty (class_schema Semijoin))
   \<and> Verb_constructor spec_util ''semijoin'' (class_schema Semijoin)
        (Some [Str ''beers'', Arr [Arr [Str ''id''], Arr [Str ''brewery'']]])
      = Inr \<lparr>verb = ''semijoin'',
             schema = [entry ''table'' TableRef, entry ''on'' JoinKeys],
             field_values =
               [(''table'', Str ''beers''),
                (''on'', Obj [(''left'', Arr [Str ''id'']), (''right'', Arr [Str ''brewery''])])]\<rparr>"
proof -
  have n: "names_ok (or_empty (class_schema Semijoin))"
    by (simp add: Semijoin_def createVerb_def or_empty_def entry_def names_ok_def)
  show ?thesis
    using n constructor_in_schema_order [OF n, of spec_util "''semijoin''"
        "Some [Str ''beers'', Arr [Arr [Str ''id''], Arr [Str ''brewery'']]]"]
    by (simp add: construct_def stored_def normalizer_for_def unless_undefined_def param_at_def
        Semijoin_def createVerb_def or_empty_def entry_def spec_util_def normalizeJoinKeys_def
        left_right_def enumerate_eq_zip)
qed

text \<open>
  The claim as written stores \<^verbatim>\<open>value ?? default\<close>, so \<^verbatim>\<open>new Dedupe(null)\<close> would have
  \<^verbatim>\<open>keys\<close> equal to \<^verbatim>\<open>[]\<close>. The constructor stores \<^verbatim>\<open>null\<close>.
\<close>

theorem null_parameter_counterexample:
  "new spec_util Dedupe [Null] =
     Inr \<lparr>verb = ''dedupe'',
          schema = [\<lparr>name = ''keys'', type = ExprList, default' = Arr [], props = []\<rparr>],
          field_values = [(''keys'', Null)]\<rparr>
   \<and> nullish_coalesce Null (Arr []) = Arr []
   \<and> Null \<noteq> Arr []"
  by (simp add: new_def Dedupe_def createVerb_def Verb_constructor_def or_empty_def
      entry_def normalize_def param_at_def set_prop_def nullish_coalesce_def)


section \<open>Evaluation\<close>

text \<open>The callback of \<^verbatim>\<open>evaluate\<close> returns exactly the resolved argument of section 4.3.\<close>

lemma resolve_resolved:
  "resolve U cat this s = Inr a \<longleftrightarrow> resolved (getTable U) cat this s a"
proof (cases "type s = TableRef")
  case True
  then show ?thesis
    by (simp add: resolve_def resolved_def)
next
  case notref: False
  show ?thesis
  proof (cases "type s = TableRefList")
    case True
    have lookups: "list_all2 (\<lambda>t r. getTable U cat t = Inr r) ts rs
        \<longleftrightarrow> map_result (getTable U cat) ts = Inr rs" for ts rs
      by (simp add: map_result_Inr)
    from True show ?thesis
      by (cases "get_prop (field_values this) (name s)"; cases a)
         (auto simp: resolve_def resolved_def lookups split: sum.splits)
  next
    case False
    with notref show ?thesis
      by (cases "type s") (auto simp: resolve_def resolved_def)
  qed
qed

text \<open>
  C2. For every verb, table and catalog, \<^verbatim>\<open>evaluate\<close> resolves each field by kind (a
  table reference is replaced by the table looked up for the stored value, a list of
  table references element by element, every other field passes unchanged), then calls
  the table method named by the verb with the resolved values in schema order and
  returns what the method returns. Conversely it returns a value only in this way: when
  a reference does not resolve, or a list of references is no list, or the table has no
  such method, the call throws. The lookup is \<^verbatim>\<open>getTable(catalog, value)\<close>; with the
  \<^verbatim>\<open>getTable\<close> of section 4.3 a reference resolves to \<open>t\<close> exactly when the catalog
  returns \<open>t\<close> for it.
\<close>

theorem evaluate_resolves_then_invokes:
  assumes "names_ok (schema this)"
  shows "(\<forall>m args. tbl (verb this) = Some m
              \<and> list_all2 (resolved (getTable U) cat this) (schema this) args
            \<longrightarrow> evaluate U this tbl cat = m args)
       \<and> (\<forall>r. evaluate U this tbl cat = Inr r
            \<longrightarrow> (\<exists>m args. tbl (verb this) = Some m
                   \<and> list_all2 (resolved (getTable U) cat this) (schema this) args
                   \<and> m args = Inr r))
       \<and> (\<forall>ref t. getTable_spec cat ref = Inr t \<longleftrightarrow> cat ref = Some t)"
proof -
  have eq: "map_result (resolve U cat this) (schema this) = Inr args
        \<longleftrightarrow> list_all2 (resolved (getTable U) cat this) (schema this) args" for args
    by (simp add: map_result_Inr resolve_resolved)
  show ?thesis
  proof (intro conjI allI impI)
    fix m args
    assume "tbl (verb this) = Some m
      \<and> list_all2 (resolved (getTable U) cat this) (schema this) args"
    then show "evaluate U this tbl cat = m args"
      using eq [of args] by (simp add: evaluate_def)
  next
    fix r
    assume ev: "evaluate U this tbl cat = Inr r"
    then obtain args where a: "map_result (resolve U cat this) (schema this) = Inr args"
      by (auto simp: evaluate_def split: sum.splits)
    with ev obtain m where "tbl (verb this) = Some m" "m args = Inr r"
      by (auto simp: evaluate_def split: option.splits)
    with a eq [of args]
    show "\<exists>m args. tbl (verb this) = Some m
            \<and> list_all2 (resolved (getTable U) cat this) (schema this) args \<and> m args = Inr r"
      by blast
  next
    fix ref t
    show "getTable_spec cat ref = Inr t \<longleftrightarrow> cat ref = Some t"
      by (simp add: getTable_spec_def split: option.splits)
  qed
qed

text \<open>
  The theorem at a semijoin with the table \<^verbatim>\<open>beers\<close> and at a concatenation of both
  tables: the method receives the catalog's tables in place of the names.
\<close>

theorem evaluate_resolves_then_invokes_witness:
  "names_ok (schema semijoin_beers)
   \<and> example_table (verb semijoin_beers) = Some arguments
   \<and> list_all2 (resolved getTable_spec example_catalog semijoin_beers) (schema semijoin_beers)
       [Table ''beers'', left_right [Str ''id''] [Str ''id'']]
   \<and> evaluate spec_util semijoin_beers example_table example_catalog
       = Inr (Arr [Table ''beers'', left_right [Str ''id''] [Str ''id'']])
   \<and> names_ok (schema concat_both)
   \<and> example_table (verb concat_both) = Some arguments
   \<and> list_all2 (resolved getTable_spec example_catalog concat_both) (schema concat_both)
       [Arr [Table ''beers'', Table ''breweries'']]
   \<and> evaluate spec_util concat_both example_table example_catalog
       = Inr (Arr [Arr [Table ''beers'', Table ''breweries'']])"
proof -
  have g: "getTable spec_util = getTable_spec"
    by (simp add: spec_util_def)
  have n1: "names_ok (schema semijoin_beers)"
    by (simp add: semijoin_beers_def names_ok_def entry_def)
  have m1: "example_table (verb semijoin_beers) = Some arguments"
    by (simp add: semijoin_beers_def example_table_def)
  have r1: "list_all2 (resolved (getTable spec_util) example_catalog semijoin_beers)
       (schema semijoin_beers) [Table ''beers'', left_right [Str ''id''] [Str ''id'']]"
    by (simp add: g semijoin_beers_def resolved_def entry_def get_prop_def example_catalog_def
        getTable_spec_def)
  have n2: "names_ok (schema concat_both)"
    by (simp add: concat_both_def names_ok_def entry_def)
  have m2: "example_table (verb concat_both) = Some arguments"
    by (simp add: concat_both_def example_table_def)
  have r2: "list_all2 (resolved (getTable spec_util) example_catalog concat_both)
       (schema concat_both) [Arr [Table ''beers'', Table ''breweries'']]"
    by (simp add: g concat_both_def resolved_def entry_def get_prop_def example_catalog_def
        getTable_spec_def)
  have e1: "evaluate spec_util semijoin_beers example_table example_catalog
       = arguments [Table ''beers'', left_right [Str ''id''] [Str ''id'']]"
    using evaluate_resolves_then_invokes [OF n1, of example_table spec_util example_catalog]
      m1 r1
    by blast
  have e2: "evaluate spec_util concat_both example_table example_catalog
       = arguments [Arr [Table ''beers'', Table ''breweries'']]"
    using evaluate_resolves_then_invokes [OF n2, of example_table spec_util example_catalog]
      m2 r2
    by blast
  show ?thesis
    using n1 m1 r1 n2 m2 r2 e1 e2 by (simp add: arguments_def g)
qed


section \<open>The registry and \<^verbatim>\<open>Verb.from\<close>\<close>

text \<open>
  C4 (as amended). For every plain object whose \<^verbatim>\<open>verb\<close> is neither a key of \<^verbatim>\<open>Verbs\<close> nor
  the string \<^verbatim>\<open>constructor\<close>, \<^verbatim>\<open>Verb.from\<close> fails, and the failure is the \<^verbatim>\<open>TypeError\<close> of
  reading \<^verbatim>\<open>schema\<close> of \<^verbatim>\<open>undefined\<close> (or of constructing what is no constructor): the
  file has no check for unknown verbs and no \<^verbatim>\<open>UnknownVerbError\<close>.
\<close>

theorem from_unregistered:
  "map_of Verbs (obj_verb object) = None \<Longrightarrow> obj_verb object \<noteq> ''constructor'' \<Longrightarrow>
   Verb_from U object = Inl TypeError"
  by (simp add: Verb_from_def Verbs_get_def)

text \<open>
  The theorem at \<^verbatim>\<open>{verb: "summarize"}\<close>, a name that is nowhere, and at
  \<^verbatim>\<open>{verb: "toString"}\<close>, a name the registry inherits.
\<close>

theorem from_unregistered_witness:
  "map_of Verbs ''summarize'' = None \<and> ''summarize'' \<noteq> ''constructor''
   \<and> Verb_from spec_util \<lparr>obj_verb = ''summarize'', obj_props = []\<rparr> = Inl TypeError
   \<and> map_of Verbs ''toString'' = None \<and> ''toString'' \<noteq> ''constructor''
   \<and> Verb_from spec_util \<lparr>obj_verb = ''toString'', obj_props = []\<rparr> = Inl TypeError"
proof -
  have a: "map_of Verbs (obj_verb \<lparr>obj_verb = ''summarize'', obj_props = []\<rparr>) = None"
    by (simp add: Verbs_def)
  have b: "obj_verb \<lparr>obj_verb = ''summarize'', obj_props = []\<rparr> \<noteq> ''constructor''"
    by simp
  have c: "map_of Verbs (obj_verb \<lparr>obj_verb = ''toString'', obj_props = []\<rparr>) = None"
    by (simp add: Verbs_def)
  have d: "obj_verb \<lparr>obj_verb = ''toString'', obj_props = []\<rparr> \<noteq> ''constructor''"
    by simp
  show ?thesis
    using from_unregistered [OF a b, of spec_util] from_unregistered [OF c d, of spec_util] a c
    by simp
qed

text \<open>
  The claim as written has \<^verbatim>\<open>Verb.from({verb: "unknown_verb"})\<close> fail with
  \<^verbatim>\<open>UnknownVerbError\<close>. \<^verbatim>\<open>Verbs["unknown_verb"]\<close> is \<^verbatim>\<open>undefined\<close>, and line 58 reads
  \<^verbatim>\<open>schema\<close> of it: the call fails with a \<^verbatim>\<open>TypeError\<close>.
\<close>

theorem from_unknown_verb_counterexample:
  "map_of Verbs ''unknown_verb'' = None
   \<and> Verb_from spec_util \<lparr>obj_verb = ''unknown_verb'', obj_props = []\<rparr> = Inl TypeError
   \<and> TypeError \<noteq> UnknownVerbError"
  by (simp add: Verb_from_def Verbs_get_def Verbs_def Object_prototype_others_def)

text \<open>
  The name \<^verbatim>\<open>constructor\<close> is set apart above because line 57 has no own-property check:
  \<^verbatim>\<open>Verbs["constructor"]\<close> is \<^verbatim>\<open>Object\<close>, whose \<^verbatim>\<open>schema\<close> is \<^verbatim>\<open>undefined\<close>, and what line 60
  constructs is no verb, where the method is documented to return one.
\<close>

lemma from_constructor_no_verb:
  "map_of Verbs ''constructor'' = None
   \<and> Verb_from spec_util \<lparr>obj_verb = ''constructor'', obj_props = []\<rparr> = Inr EmptyObject"
  by (simp add: Verb_from_def Verbs_get_def Verbs_def)

lemma from_Instance_registered:
  "Verb_from U object = Inr (Instance v) \<Longrightarrow> map_of Verbs (obj_verb object) \<noteq> None"
  by (cases "map_of Verbs (obj_verb object)")
     (auto simp: Verb_from_def Verbs_get_def split: if_splits)

lemma keys_registered: "k \<in> set (map fst Verbs) \<longleftrightarrow> map_of Verbs k \<noteq> None"
  by (simp add: map_of_eq_None_iff)

text \<open>An exception of the constructor's loop is an exception of one of the normalizers.\<close>

lemma init_fields_error:
  "init_fields U sch params i this = Inl e \<Longrightarrow>
   \<exists>x. joinKeys U x = Inl e \<or> joinValues U x = Inl e \<or> orderbyKeys U x = Inl e"
proof (induction sch arbitrary: i this)
  case Nil
  then show ?case by simp
next
  case (Cons s rest)
  show ?case
  proof (cases "normalize U (type s) (param_at params i)")
    case (Inl e')
    with Cons.prems have "normalize U (type s) (param_at params i) = Inl e"
      by simp
    then show ?thesis
      by (auto simp: normalize_def split: if_splits)
  next
    case (Inr v)
    with Cons.prems Cons.IH show ?thesis
      by simp
  qed
qed

text \<open>
  For a registered name, \<^verbatim>\<open>Verb.from\<close> returns a verb unless a helper throws, and then it
  throws what the helper threw.
\<close>

lemma from_registered:
  assumes "map_of Verbs (obj_verb object) = Some C"
  shows "(\<exists>v. Verb_from U object = Inr (Instance v))
       \<or> (\<exists>e x. Verb_from U object = Inl e
             \<and> (fromObject U x = Inl e \<or> joinKeys U x = Inl e
                  \<or> joinValues U x = Inl e \<or> orderbyKeys U x = Inl e))"
proof (cases "map_result (\<lambda>s. fromObject U (get_prop (obj_props object) (name s)))
                (or_empty (class_schema C))")
  case (Inl e)
  then have "\<exists>x. fromObject U x = Inl e"
    by (auto dest: map_result_error)
  moreover have "Verb_from U object = Inl e"
    using assms Inl by (simp add: Verb_from_def Verbs_get_def)
  ultimately show ?thesis by blast
next
  case (Inr params)
  show ?thesis
  proof (cases "new U C params")
    case (Inl e)
    then have "\<exists>x. joinKeys U x = Inl e \<or> joinValues U x = Inl e \<or> orderbyKeys U x = Inl e"
      by (auto simp: new_def Verb_constructor_def split: sum.splits dest: init_fields_error)
    moreover have "Verb_from U object = Inl e"
      using assms Inr Inl by (simp add: Verb_from_def Verbs_get_def)
    ultimately show ?thesis by blast
  next
    case new: (Inr v)
    have "Verb_from U object = Inr (Instance v)"
      using assms Inr new by (simp add: Verb_from_def Verbs_get_def)
    then show ?thesis by blast
  qed
qed

text \<open>
  C10 (as amended). The registry omits \<^verbatim>\<open>reify\<close> although \<^verbatim>\<open>Reify\<close> is exported: a
  \<^verbatim>\<open>Reify\<close> verb can be constructed and serialized with \<^verbatim>\<open>toObject\<close>, but \<^verbatim>\<open>Verb.from\<close> of
  the serialized object \<^verbatim>\<open>{verb: "reify"}\<close> fails, so the round trip does not hold for
  \<^verbatim>\<open>reify\<close>. The registry has 24 names, and \<^verbatim>\<open>Verb.from\<close> can return a verb for exactly
  these: it returns a verb only for a registered name, and for a registered name it
  returns a verb unless one of the helpers \<^verbatim>\<open>fromObject\<close>, \<^verbatim>\<open>joinKeys\<close>, \<^verbatim>\<open>joinValues\<close>,
  \<^verbatim>\<open>orderbyKeys\<close> throws.
\<close>

theorem from_only_registered:
  "map_of Verbs ''reify'' = None
   \<and> new U Reify params = Inr \<lparr>verb = ''reify'', schema = [], field_values = []\<rparr>
   \<and> Verb_toObject U \<lparr>verb = ''reify'', schema = [], field_values = []\<rparr>
       = Inr \<lparr>obj_verb = ''reify'', obj_props = []\<rparr>
   \<and> Verb_from U \<lparr>obj_verb = ''reify'', obj_props = ps\<rparr> = Inl TypeError
   \<and> length Verbs = 24
   \<and> distinct (map fst Verbs)
   \<and> ((\<exists>v. Verb_from U object = Inr (Instance v)) \<longrightarrow> obj_verb object \<in> set (map fst Verbs))
   \<and> (obj_verb object \<in> set (map fst Verbs)
        \<longrightarrow> (\<exists>v. Verb_from U object = Inr (Instance v))
            \<or> (\<exists>e x. Verb_from U object = Inl e
                  \<and> (fromObject U x = Inl e \<or> joinKeys U x = Inl e
                       \<or> joinValues U x = Inl e \<or> orderbyKeys U x = Inl e)))"
proof (intro conjI impI)
  show "map_of Verbs ''reify'' = None"
    by (simp add: Verbs_def)
  show "new U Reify params = Inr \<lparr>verb = ''reify'', schema = [], field_values = []\<rparr>"
    by (simp add: new_def Reify_def createVerb_def Verb_constructor_def or_empty_def)
  show "Verb_toObject U \<lparr>verb = ''reify'', schema = [], field_values = []\<rparr>
       = Inr \<lparr>obj_verb = ''reify'', obj_props = []\<rparr>"
    by (simp add: Verb_toObject_def)
  show "Verb_from U \<lparr>obj_verb = ''reify'', obj_props = ps\<rparr> = Inl TypeError"
    by (simp add: Verb_from_def Verbs_get_def Verbs_def Object_prototype_others_def)
  show "length Verbs = 24"
    by (simp add: Verbs_def)
  show "distinct (map fst Verbs)"
    by (simp add: Verbs_keys)
next
  assume "\<exists>v. Verb_from U object = Inr (Instance v)"
  then show "obj_verb object \<in> set (map fst Verbs)"
    using from_Instance_registered keys_registered by blast
next
  assume "obj_verb object \<in> set (map fst Verbs)"
  then obtain C where "map_of Verbs (obj_verb object) = Some C"
    using keys_registered by blast
  then show "(\<exists>v. Verb_from U object = Inr (Instance v))
            \<or> (\<exists>e x. Verb_from U object = Inl e
                  \<and> (fromObject U x = Inl e \<or> joinKeys U x = Inl e
                       \<or> joinValues U x = Inl e \<or> orderbyKeys U x = Inl e))"
    by (rule from_registered)
qed

text \<open>
  The theorem at \<^verbatim>\<open>{verb: "dedupe", keys: ["a"]}\<close>, which \<^verbatim>\<open>Verb.from\<close> rebuilds, and at
  \<^verbatim>\<open>{verb: "reify"}\<close>, with the helpers of the specification.
\<close>

theorem from_only_registered_witness:
  "Verb_from spec_util \<lparr>obj_verb = ''dedupe'', obj_props = [(''keys'', Arr [Str ''a''])]\<rparr>
     = Inr (Instance
         \<lparr>verb = ''dedupe'',
          schema = [\<lparr>name = ''keys'', type = ExprList, default' = Arr [], props = []\<rparr>],
          field_values = [(''keys'', Arr [Str ''a''])]\<rparr>)
   \<and> ''dedupe'' \<in> set (map fst Verbs)
   \<and> Verb_from spec_util \<lparr>obj_verb = ''reify'', obj_props = []\<rparr> = Inl TypeError"
proof -
  let ?object = "\<lparr>obj_verb = ''dedupe'', obj_props = [(''keys'', Arr [Str ''a''])]\<rparr>"
  let ?v = "\<lparr>verb = ''dedupe'',
          schema = [\<lparr>name = ''keys'', type = ExprList, default' = Arr [], props = []\<rparr>],
          field_values = [(''keys'', Arr [Str ''a''])]\<rparr>"
  have rebuilt: "Verb_from spec_util ?object = Inr (Instance ?v)"
    by (simp add: Verb_from_def Verbs_get_def Verbs_def Dedupe_def createVerb_def new_def
        Verb_constructor_def or_empty_def entry_def get_prop_def normalize_def param_at_def
        set_prop_def spec_util_def)
  then have ex: "\<exists>v. Verb_from spec_util ?object = Inr (Instance v)"
    by blast
  have key: "''dedupe'' \<in> set (map fst Verbs)"
    using from_only_registered [of spec_util "[]" "[]" ?object] ex by simp
  show ?thesis
    using from_only_registered [of spec_util "[]" "[]" ?object] rebuilt key
    by simp
qed

text \<open>The claim as written counts 23 names in the registry. There are 24.\<close>

theorem registry_size_counterexample:
  "length (map fst Verbs) = 24 \<and> distinct (map fst Verbs) \<and> length (map fst Verbs) \<noteq> 23"
  by (simp add: Verbs_keys)


section \<open>Object serialization\<close>

text \<open>The serialization of section 4.4 returns plain data for every value.\<close>

lemma toObject_spec_plain: "plain_data (toObject_spec v)"
  by (induction v rule: toObject_spec.induct) (auto simp: list_all_iff split: option.splits)

lemma toObject_each_spec:
  "\<exists>obj'. toObject_each spec_util this sch obj = Inr obj'
     \<and> obj_verb obj' = obj_verb obj
     \<and> (list_all (\<lambda>(k, v). plain_data v) (obj_props obj)
          \<longrightarrow> list_all (\<lambda>(k, v). plain_data v) (obj_props obj'))
     \<and> (\<forall>k. get_prop (obj_props obj') k =
           (if k \<in> name ` set sch then toObject_spec (get_prop (field_values this) k)
            else get_prop (obj_props obj) k))"
proof (induction sch arbitrary: obj)
  case Nil
  then show ?case by simp
next
  case (Cons s rest)
  let ?x = "toObject_spec (get_prop (field_values this) (name s))"
  let ?obj = "obj\<lparr>obj_props := set_prop (name s) ?x (obj_props obj)\<rparr>"
  have step: "toObject_each spec_util this (s # rest) obj = toObject_each spec_util this rest ?obj"
    by (simp add: spec_util_def)
  from Cons.IH [of ?obj] obtain obj' where
    r: "toObject_each spec_util this rest ?obj = Inr obj'"
    and v: "obj_verb obj' = obj_verb ?obj"
    and p: "list_all (\<lambda>(k, v). plain_data v) (obj_props ?obj)
          \<longrightarrow> list_all (\<lambda>(k, v). plain_data v) (obj_props obj')"
    and g: "\<forall>k. get_prop (obj_props obj') k =
           (if k \<in> name ` set rest then toObject_spec (get_prop (field_values this) k)
            else get_prop (obj_props ?obj) k)"
    by blast
  have "list_all (\<lambda>(k, v). plain_data v) (obj_props obj)
          \<longrightarrow> list_all (\<lambda>(k, v). plain_data v) (obj_props obj')"
    using p by (simp add: set_prop_def update_list_all toObject_spec_plain)
  moreover have "\<forall>k. get_prop (obj_props obj') k =
           (if k \<in> name ` set (s # rest) then toObject_spec (get_prop (field_values this) k)
            else get_prop (obj_props obj) k)"
    using g by (auto simp: set_prop_def get_prop_update)
  ultimately show ?case
    unfolding step using r v by simp
qed

lemma toObject_spec_table_name: "table_name ref = Some n \<Longrightarrow> toObject_spec ref = Str n"
  by (cases ref) (auto simp: table_name_def)

lemma toObject_spec_table_names:
  "map table_name refs = map Some ns \<Longrightarrow> map toObject_spec refs = map Str ns"
  by (induction refs arbitrary: ns) (auto simp: toObject_spec_table_name)

text \<open>
  C5. For every verb, \<^verbatim>\<open>toObject\<close> returns an object that holds, at any depth, no live
  table handle and no callable, only scalars, records and arrays: the verb name and,
  per schema entry, the serialized field. A table reference is serialized as the name
  string of its table, and a list of table references as the list of their names.
  (\<^verbatim>\<open>toObject\<close> of \<^verbatim>\<open>./util\<close> is the serialization of section 4.4.)
\<close>

theorem toObject_is_plain_data:
  assumes "names_ok (schema this)"
  shows "\<exists>obj. Verb_toObject spec_util this = Inr obj
           \<and> obj_verb obj = verb this
           \<and> list_all (\<lambda>(k, v). plain_data v) (obj_props obj)
           \<and> (\<forall>s n. s \<in> set (schema this) \<and> type s = TableRef
                  \<and> table_name (get_prop (field_values this) (name s)) = Some n
                \<longrightarrow> get_prop (obj_props obj) (name s) = Str n)
           \<and> (\<forall>s refs ns. s \<in> set (schema this) \<and> type s = TableRefList
                  \<and> get_prop (field_values this) (name s) = Arr refs
                  \<and> map table_name refs = map Some ns
                \<longrightarrow> get_prop (obj_props obj) (name s) = Arr (map Str ns))"
proof -
  from toObject_each_spec [of this "schema this" "\<lparr>obj_verb = verb this, obj_props = []\<rparr>"]
  obtain obj where
    r: "Verb_toObject spec_util this = Inr obj"
    and v: "obj_verb obj = verb this"
    and p: "list_all (\<lambda>(k, v). plain_data v) (obj_props obj)"
    and g: "\<forall>k. get_prop (obj_props obj) k =
           (if k \<in> name ` set (schema this) then toObject_spec (get_prop (field_values this) k)
            else get_prop [] k)"
    by (auto simp: Verb_toObject_def)
  have "get_prop (obj_props obj) (name s) = Str n"
    if "s \<in> set (schema this)" "table_name (get_prop (field_values this) (name s)) = Some n"
    for s n
    using that g by (simp add: toObject_spec_table_name)
  moreover have "get_prop (obj_props obj) (name s) = Arr (map Str ns)"
    if "s \<in> set (schema this)" "get_prop (field_values this) (name s) = Arr refs"
      "map table_name refs = map Some ns"
    for s refs ns
    using that g by (simp add: toObject_spec_table_names)
  ultimately show ?thesis
    using r v p by blast
qed

text \<open>
  The theorem at a semijoin that holds a live handle of \<^verbatim>\<open>beers\<close> and a callable key.
\<close>

theorem toObject_is_plain_data_witness:
  "names_ok (schema (semijoin_beers\<lparr>field_values :=
       [(''table'', Table ''beers''), (''on'', left_right [Func (Some ''d => d.id'')] [Str ''id''])]\<rparr>))
   \<and> table_name (Table ''beers'') = Some ''beers''
   \<and> Verb_toObject spec_util (semijoin_beers\<lparr>field_values :=
       [(''table'', Table ''beers''), (''on'', left_right [Func (Some ''d => d.id'')] [Str ''id''])]\<rparr>)
     = Inr \<lparr>obj_verb = ''semijoin'',
            obj_props =
              [(''table'', Str ''beers''),
               (''on'', Obj [(''left'', Arr [Obj [(''expr'', Str ''d => d.id'')]]),
                            (''right'', Arr [Str ''id''])])]\<rparr>"
proof -
  let ?v = "semijoin_beers\<lparr>field_values :=
       [(''table'', Table ''beers''), (''on'', left_right [Func (Some ''d => d.id'')] [Str ''id''])]\<rparr>"
  have n: "names_ok (schema ?v)"
    by (simp add: semijoin_beers_def names_ok_def entry_def)
  from toObject_is_plain_data [OF n] obtain obj where
    r: "Verb_toObject spec_util ?v = Inr obj"
    and t: "\<forall>s n. s \<in> set (schema ?v) \<and> type s = TableRef
                  \<and> table_name (get_prop (field_values ?v) (name s)) = Some n
                \<longrightarrow> get_prop (obj_props obj) (name s) = Str n"
    by blast
  have "get_prop (obj_props obj) ''table'' = Str ''beers''"
    using t [rule_format, of "entry ''table'' TableRef" "''beers''"]
    by (simp add: semijoin_beers_def entry_def get_prop_def table_name_def)
  then show ?thesis
    using n r
    by (simp add: semijoin_beers_def entry_def get_prop_def table_name_def Verb_toObject_def
        spec_util_def set_prop_def left_right_def names_ok_def)
qed


section \<open>Join keys\<close>

lemma normalizeJoinKeys_pair:
  "normalizeJoinKeys (Arr [Arr l, Arr r]) =
     (if length l = length r then Inr (left_right l r) else Inl MismatchedJoinArityError)"
  by (simp add: normalizeJoinKeys_def)

lemma normalizeJoinKeys_equal_length:
  "normalizeJoinKeys x = Inr y \<Longrightarrow> \<exists>l r. y = left_right l r \<and> length l = length r"
  by (auto simp: normalizeJoinKeys_def split: val.splits list.splits if_splits)

text \<open>
  C6. The join-keys normalizer maps a single name to the same singleton list on the left
  and on the right, takes a 2-element array of arrays as left and right list as they
  are, and throws \<^verbatim>\<open>MismatchedJoinArityError\<close> when the two arrays differ in length; so
  whenever it returns, the left and right sequences of its result have the same length.
  (\<^verbatim>\<open>joinKeys\<close> of \<^verbatim>\<open>./util\<close> is the normalizer of section 4.1.)
\<close>

theorem normalizeJoinKeys_shapes:
  "normalizeJoinKeys (Str a) = Inr (left_right [Str a] [Str a])
   \<and> (length l = length r \<longrightarrow> normalizeJoinKeys (Arr [Arr l, Arr r]) = Inr (left_right l r))
   \<and> (length l' \<noteq> length r' \<longrightarrow>
        normalizeJoinKeys (Arr [Arr l', Arr r']) = Inl MismatchedJoinArityError)
   \<and> (normalizeJoinKeys x = Inr y \<longrightarrow> (\<exists>ls rs. y = left_right ls rs \<and> length ls = length rs))"
proof (intro conjI impI)
  show "normalizeJoinKeys (Str a) = Inr (left_right [Str a] [Str a])"
    by (simp add: normalizeJoinKeys_def)
next
  assume "length l = length r"
  then show "normalizeJoinKeys (Arr [Arr l, Arr r]) = Inr (left_right l r)"
    by (simp add: normalizeJoinKeys_pair)
next
  assume "length l' \<noteq> length r'"
  then show "normalizeJoinKeys (Arr [Arr l', Arr r']) = Inl MismatchedJoinArityError"
    by (simp add: normalizeJoinKeys_pair)
next
  assume "normalizeJoinKeys x = Inr y"
  then show "\<exists>ls rs. y = left_right ls rs \<and> length ls = length rs"
    by (rule normalizeJoinKeys_equal_length)
qed

text \<open>The three examples of section 8, and a list of names.\<close>

theorem normalizeJoinKeys_shapes_witness:
  "normalizeJoinKeys (Str ''a'') = Inr (Obj [(''left'', Arr [Str ''a'']), (''right'', Arr [Str ''a''])])
   \<and> length [Str ''a'', Str ''b''] = length [Str ''c'', Str ''d'']
   \<and> normalizeJoinKeys (Arr [Arr [Str ''a'', Str ''b''], Arr [Str ''c'', Str ''d'']])
       = Inr (Obj [(''left'', Arr [Str ''a'', Str ''b'']), (''right'', Arr [Str ''c'', Str ''d''])])
   \<and> length [Str ''a''] \<noteq> length [Str ''c'', Str ''d'']
   \<and> normalizeJoinKeys (Arr [Arr [Str ''a''], Arr [Str ''c'', Str ''d'']])
       = Inl MismatchedJoinArityError
   \<and> normalizeJoinKeys (Arr [Str ''a'', Str ''b''])
       = Inr (left_right [Str ''a'', Str ''b''] [Str ''a'', Str ''b''])
   \<and> length [Str ''a'', Str ''b''] = length [Str ''a'', Str ''b'']"
proof -
  have same: "length [Str ''a'', Str ''b''] = length [Str ''c'', Str ''d'']"
    by simp
  have differ: "length [Str ''a''] \<noteq> length [Str ''c'', Str ''d'']"
    by simp
  have list: "normalizeJoinKeys (Arr [Str ''a'', Str ''b''])
       = Inr (left_right [Str ''a'', Str ''b''] [Str ''a'', Str ''b''])"
    by (simp add: normalizeJoinKeys_def)
  show ?thesis
    using normalizeJoinKeys_shapes
      [of "''a''" "[Str ''a'', Str ''b'']" "[Str ''c'', Str ''d'']"
          "[Str ''a'']" "[Str ''c'', Str ''d'']"
          "Arr [Str ''a'', Str ''b'']"
          "left_right [Str ''a'', Str ''b''] [Str ''a'', Str ''b'']"]
      same differ list
    by (simp add: left_right_def)
qed


section \<open>Tree serialization\<close>
























text \<open>
  Where the serialization returns a tree, the tree is fully structural as long as the
  parser's trees are: no callable and no table handle is left in a literal.
\<close>

lemma literal_ast_structural: "literal_ast v = Inr t \<Longrightarrow> structural t"
  by (auto simp: literal_ast_def split: if_splits)

lemma expression_ast_structural:
  assumes "\<forall>text k. structural (parse text k)"
  shows "expression_ast parse k v = Inr t \<Longrightarrow> structural t"
    and "expressions_ast parse k es = Inr ts \<Longrightarrow> list_all structural ts"
    and "expression_map_ast parse k d = Inr kts \<Longrightarrow> list_all (\<lambda>p. structural (snd p)) kts"
  using assms
  by (induction parse k v and parse k es and parse k d arbitrary: t and ts and kts
      rule: expression_ast_expressions_ast_expression_map_ast.induct)
     (auto split: option.splits val.splits sum.splits dest: literal_ast_structural)

lemma map_result_all_results:
  "map_result f xs = Inr ys \<Longrightarrow> (\<And>x y. f x = Inr y \<Longrightarrow> P y) \<Longrightarrow> list_all P ys"
  by (induction xs arbitrary: ys) (auto split: sum.splits)

lemma options_each_structural:
  assumes "\<forall>text k. structural (parse text k)"
  shows "options_each parse sub m = Inr kts \<Longrightarrow> list_all (\<lambda>p. structural (snd p)) kts"
  using assms
  by (induction parse sub m arbitrary: kts rule: options_each.induct)
     (auto simp: option_ast_def split: sum.splits option.splits if_splits
        dest: literal_ast_structural expression_ast_structural(1))

lemma toAST_spec_structural:
  assumes "\<forall>text k. structural (parse text k)" and "toAST_spec parse v k sub = Inr t"
  shows "structural t"
proof -
  have e: "expression_ast parse k' v' = Inr t' \<Longrightarrow> structural t'" for k' v' t'
    using assms(1) by (rule expression_ast_structural(1))
  have es: "expressions_ast parse k' l = Inr ts \<Longrightarrow> list_all structural ts" for k' l ts
    using assms(1) by (rule expression_ast_structural(2))
  have key: "order_key_ast parse x = Inr y \<Longrightarrow> structural y" for x y
    by (auto simp: order_key_ast_def simp del: expression_ast.simps
        split: val.splits sum.splits dest: e literal_ast_structural)
  have tab: "table_ast x = Inr y \<Longrightarrow> structural y" for x y
    by (auto simp: table_ast_def split: val.splits dest: literal_ast_structural)
  have j: "join_ast parse k v = Inr t \<Longrightarrow> structural t"
    by (auto simp: join_ast_def simp del: expression_ast.simps
        split: val.splits option.splits sum.splits dest: e es)
  have keys: "map_result (order_key_ast parse) l = Inr ts \<Longrightarrow> list_all structural ts" for l ts
    by (erule map_result_all_results) (rule key)
  have ob: "orderby_ast parse v = Inr t \<Longrightarrow> structural t"
    by (auto simp: orderby_ast_def simp del: expression_ast.simps
        split: val.splits sum.splits dest: e keys)
  have op: "options_ast parse sub v = Inr t \<Longrightarrow> structural t"
    by (auto simp: options_ast_def split: val.splits sum.splits
        dest: literal_ast_structural options_each_structural [OF assms(1)])
  have tabl: "map_result table_ast l = Inr ts \<Longrightarrow> list_all structural ts" for l ts
    by (erule map_result_all_results) (rule tab)
  have tabs: "tables_ast v = Inr t \<Longrightarrow> structural t"
    by (auto simp: tables_ast_def split: val.splits sum.splits dest: tab tabl)
  show ?thesis
    using assms(2) e j ob op tab tabs
    by (auto simp: toAST_spec_def split: if_splits dest: literal_ast_structural)
qed

text \<open>
  So the tree of a verb, where \<^verbatim>\<open>toAST\<close> returns one, has a child for every field of the
  schema and nothing else, and each child is fully structural: no field is dropped and
  none holds a callable.
\<close>

lemma toAST_each_keys:
  "toAST_each toAST this sch obj = Inr out \<Longrightarrow>
   fst ` set (ast_props out) = fst ` set (ast_props obj) \<union> name ` set sch"
  by (induction sch arbitrary: obj) (auto simp: dom_update split: sum.splits)

lemma toAST_each_structural:
  assumes "\<And>v k sub t. toAST v k sub = Inr t \<Longrightarrow> structural t"
  shows "toAST_each toAST this sch obj = Inr out \<Longrightarrow>
    list_all (\<lambda>(k, t). structural t) (ast_props obj) \<Longrightarrow>
    list_all (\<lambda>(k, t). structural t) (ast_props out)"
proof (induction sch arbitrary: obj)
  case Nil
  then show ?case by simp
next
  case (Cons s rest)
  from Cons.prems(1) obtain t where
    t: "toAST (get_prop (field_values this) (name s)) (type s) (props s) = Inr t"
    and rest: "toAST_each toAST this rest
      (obj\<lparr>ast_props := AList.update (name s) t (ast_props obj)\<rparr>) = Inr out"
    by (auto split: sum.splits)
  from t have "structural t"
    by (rule assms)
  with Cons.prems(2) have "list_all (\<lambda>(k, t). structural t)
      (ast_props (obj\<lparr>ast_props := AList.update (name s) t (ast_props obj)\<rparr>))"
    by (simp add: update_list_all)
  with rest show ?case
    by (rule Cons.IH)
qed

lemma toAST_tree_structural:
  assumes "\<forall>text k. structural (parse text k)"
    and "Verb_toAST (toAST_spec parse) this = Inr out"
  shows "fst ` set (ast_props out) = name ` set (schema this)"
    and "list_all (\<lambda>(k, t). structural t) (ast_props out)"
proof -
  from assms(2) have each: "toAST_each (toAST_spec parse) this (schema this)
      \<lparr>ast_verb = verb this, ast_props = []\<rparr> = Inr out"
    by (simp add: Verb_toAST_def)
  from each have "fst ` set (ast_props out)
      = fst ` set (ast_props \<lparr>ast_verb = verb this, ast_props = []\<rparr>) \<union> name ` set (schema this)"
    by (rule toAST_each_keys)
  then show "fst ` set (ast_props out) = name ` set (schema this)"
    by simp
  have "toAST_spec parse v k sub = Inr t \<Longrightarrow> structural t" for v k sub t
    using assms(1) by (rule toAST_spec_structural)
  moreover note each
  moreover have "list_all (\<lambda>(k, t). structural t)
      (ast_props \<lparr>ast_verb = verb this, ast_props = []\<rparr>)"
    by simp
  ultimately show "list_all (\<lambda>(k, t). structural t) (ast_props out)"
    by (rule toAST_each_structural)
qed

text \<open>
  A callable without source fails in a plain field as well, and so does a table handle
  outside a table field; a table field gives the name of its table, a bare column name an
  accessor of that column, also as an ordering key.
\<close>

lemma toAST_spec_examples:
  "toAST_spec example_parser (Func None) Plain [] = Inl UnparsableExpressionError"
  "toAST_spec example_parser (Arr [Func None]) Expr [] = Inl UnparsableExpressionError"
  "toAST_spec example_parser (Obj [(''expr'', Null)]) Expr [] = Inl UnparsableExpressionError"
  "toAST_spec example_parser (Table ''t'') Plain [] = Inl UnparsableExpressionError"
  "toAST_spec example_parser (Table ''t'') TableRef [] = Inr (Literal (Str ''t''))"
  "toAST_spec example_parser (Str ''x'') Expr [] = Inr (Column ''x'')"
  "toAST_spec example_parser (Arr [Str ''x'', Func None]) OrderbyKeys []
     = Inl UnparsableExpressionError"
  "toAST_spec example_parser
       (Arr [Obj [(''expr'', Str ''x''), (''direction'', Str ''desc'')]]) OrderbyKeys []
     = Inr (Sequence [Children [(''expr'', Column ''x''), (''direction'', Literal (Str ''desc''))]])"
  by (simp_all add: toAST_spec_def is_expression_kind_def literal_ast_def table_ast_def
      orderby_ast_def order_key_ast_def get_prop_def)


section \<open>What the methods leave unchanged\<close>

lemma verb_at_update:
  "a \<noteq> b \<Longrightarrow> verb_at (h[b := c]) a = verb_at h a"
  by (simp add: verb_at_def)

lemma object_at_update:
  "b < length h \<Longrightarrow> object_at (h[b := ObjectCell ob]) b = Some ob"
  by (simp add: object_at_def)

lemma tree_at_update:
  "b < length h \<Longrightarrow> tree_at (h[b := TreeCell ob]) b = Some ob"
  by (simp add: tree_at_def)

lemma object_at_length: "object_at h b = Some ob \<Longrightarrow> b < length h"
  by (simp add: object_at_def split: if_splits)

lemma tree_at_length: "tree_at h b = Some ob \<Longrightarrow> b < length h"
  by (simp add: tree_at_def split: if_splits)

lemma verb_at_length: "verb_at h a = Some v \<Longrightarrow> a < length h"
  by (simp add: verb_at_def split: if_splits)

lemma toObject_loop_frame:
  "verb_at h this = Some v \<Longrightarrow> object_at h obj = Some ob \<Longrightarrow>
   \<exists>r h'. toObject_loop U this obj sch h = Some (r, h')
      \<and> length h' = length h \<and> take obj h' = take obj h \<and> drop (Suc obj) h' = drop (Suc obj) h
      \<and> verb_at h' this = Some v"
proof (induction sch arbitrary: h ob)
  case Nil
  then show ?case by simp
next
  case (Cons s rest)
  have ne: "this \<noteq> obj"
    using Cons.prems by (auto simp: verb_at_def object_at_def split: if_splits cell.splits)
  show ?case
  proof (cases "toObject U (get_prop (field_values v) (name s))")
    case (Inl e)
    then show ?thesis using Cons.prems by simp
  next
    case (Inr x)
    let ?ob = "ob\<lparr>obj_props := set_prop (name s) x (obj_props ob)\<rparr>"
    let ?h = "h[obj := ObjectCell ?ob]"
    have v: "verb_at ?h this = Some v"
      using Cons.prems(1) ne by (simp add: verb_at_update)
    have o: "object_at ?h obj = Some ?ob"
      using Cons.prems(2) by (simp add: object_at_update object_at_length)
    from Cons.IH [OF v o] obtain r h' where
      "toObject_loop U this obj rest ?h = Some (r, h')"
      "length h' = length ?h" "take obj h' = take obj ?h"
      "drop (Suc obj) h' = drop (Suc obj) ?h" "verb_at h' this = Some v"
      by blast
    then show ?thesis
      using Cons.prems Inr by simp
  qed
qed

lemma toAST_loop_frame:
  "verb_at h this = Some v \<Longrightarrow> tree_at h obj = Some ob \<Longrightarrow>
   \<exists>r h'. toAST_loop toAST this obj sch h = Some (r, h')
      \<and> length h' = length h \<and> take obj h' = take obj h \<and> drop (Suc obj) h' = drop (Suc obj) h
      \<and> verb_at h' this = Some v"
proof (induction sch arbitrary: h ob)
  case Nil
  then show ?case by simp
next
  case (Cons s rest)
  have ne: "this \<noteq> obj"
    using Cons.prems by (auto simp: verb_at_def tree_at_def split: if_splits cell.splits)
  show ?case
  proof (cases "toAST (get_prop (field_values v) (name s)) (type s) (props s)")
    case (Inl e)
    then show ?thesis using Cons.prems by simp
  next
    case (Inr t)
    let ?ob = "ob\<lparr>ast_props := AList.update (name s) t (ast_props ob)\<rparr>"
    let ?h = "h[obj := TreeCell ?ob]"
    have v: "verb_at ?h this = Some v"
      using Cons.prems(1) ne by (simp add: verb_at_update)
    have o: "tree_at ?h obj = Some ?ob"
      using Cons.prems(2) by (simp add: tree_at_update tree_at_length)
    from Cons.IH [OF v o] obtain r h' where
      "toAST_loop toAST this obj rest ?h = Some (r, h')"
      "length h' = length ?h" "take obj h' = take obj ?h"
      "drop (Suc obj) h' = drop (Suc obj) ?h" "verb_at h' this = Some v"
      by blast
    then show ?thesis
      using Cons.prems Inr by simp
  qed
qed

lemma verb_at_append: "verb_at h a = Some v \<Longrightarrow> verb_at (h @ [c]) a = Some v"
  by (auto simp: verb_at_def nth_append split: if_splits)

lemma invoke_frame:
  assumes "verb_at h this = Some v"
  shows "\<exists>r h'. invoke U toAST this c h = Some (r, h')
      \<and> take (length h) h' = h \<and> verb_at h' this = Some v"
proof (cases c)
  case (Evaluate tbl cat)
  then show ?thesis using assms by (simp add: invoke_def evaluate_at_def)
next
  case ToObject
  let ?c = "ObjectCell \<lparr>obj_verb = verb v, obj_props = []\<rparr>"
  have "verb_at (h @ [?c]) this = Some v"
    using assms by (rule verb_at_append)
  moreover have "object_at (h @ [?c]) (length h) = Some \<lparr>obj_verb = verb v, obj_props = []\<rparr>"
    by (simp add: object_at_def)
  ultimately obtain r h' where
    "toObject_loop U this (length h) (schema v) (h @ [?c]) = Some (r, h')"
    "take (length h) h' = take (length h) (h @ [?c])" "verb_at h' this = Some v"
    using toObject_loop_frame by blast
  then show ?thesis
    using ToObject assms by (simp add: invoke_def toObject_at_def alloc_def)
next
  case ToAST
  let ?c = "TreeCell \<lparr>ast_verb = verb v, ast_props = []\<rparr>"
  have "verb_at (h @ [?c]) this = Some v"
    using assms by (rule verb_at_append)
  moreover have "tree_at (h @ [?c]) (length h) = Some \<lparr>ast_verb = verb v, ast_props = []\<rparr>"
    by (simp add: tree_at_def)
  ultimately obtain r h' where
    "toAST_loop toAST this (length h) (schema v) (h @ [?c]) = Some (r, h')"
    "take (length h) h' = take (length h) (h @ [?c])" "verb_at h' this = Some v"
    using toAST_loop_frame by blast
  then show ?thesis
    using ToAST assms by (simp add: invoke_def toAST_at_def alloc_def)
qed

lemma take_chain:
  assumes "take (length h) h1 = h" and "take (length h1) h2 = h1"
  shows "take (length h) h2 = h"
proof -
  have "length (take (length h) h1) = length h"
    using assms(1) by simp
  then have le: "length h \<le> length h1"
    by simp
  have "take (length h) (take (length h1) h2) = take (length h) h2"
    using le by (simp add: min_def)
  then show ?thesis
    using assms by simp
qed

text \<open>
  C7. A verb is not changed after its construction: whatever calls of \<^verbatim>\<open>evaluate\<close>,
  \<^verbatim>\<open>toObject\<close> and \<^verbatim>\<open>toAST\<close> are made on it, in any order and any number of times, the
  calls run and leave \<^verbatim>\<open>verb\<close>, \<^verbatim>\<open>schema\<close> and every field of the verb as they were. They
  change no object that existed before either: each call writes only to the object it
  allocates.
\<close>

theorem calls_leave_verb_unchanged:
  assumes "verb_at h this = Some v" and "names_ok (schema v)"
  shows "\<exists>h'. run U toAST this calls h = Some h'
           \<and> verb_at h' this = Some v \<and> take (length h) h' = h"
  using assms(1)
proof (induction calls arbitrary: h)
  case Nil
  then show ?case by simp
next
  case (Cons c cs)
  from invoke_frame [OF Cons.prems, of U toAST c] obtain r h1 where
    i: "invoke U toAST this c h = Some (r, h1)"
    and t: "take (length h) h1 = h" and v1: "verb_at h1 this = Some v"
    by blast
  from Cons.IH [OF v1] obtain h' where
    r: "run U toAST this cs h1 = Some h'"
    and v': "verb_at h' this = Some v" and t': "take (length h1) h' = h1"
    by blast
  have "take (length h) h' = h"
    using t t' by (rule take_chain)
  with i r v' show ?case by simp
qed

text \<open>The theorem at four calls on the semijoin of the example.\<close>

theorem calls_leave_verb_unchanged_witness:
  "verb_at [VerbCell semijoin_beers] 0 = Some semijoin_beers
   \<and> names_ok (schema semijoin_beers)
   \<and> (\<exists>h'. run spec_util (toAST_spec example_parser) 0
              [ToObject, Evaluate example_table example_catalog, ToAST, ToObject]
              [VerbCell semijoin_beers] = Some h'
          \<and> verb_at h' 0 = Some semijoin_beers
          \<and> take (length [VerbCell semijoin_beers]) h' = [VerbCell semijoin_beers])"
proof -
  have a: "verb_at [VerbCell semijoin_beers] 0 = Some semijoin_beers"
    by (simp add: verb_at_def)
  have n: "names_ok (schema semijoin_beers)"
    by (simp add: semijoin_beers_def names_ok_def entry_def)
  show ?thesis
    using a n calls_leave_verb_unchanged [OF a n] by blast
qed

text \<open>
  The methods on the heap compute what the methods of the previous sections compute:
  the object a call allocates holds the result of \<open>Verb_toObject\<close> (of \<open>Verb_toAST\<close>).
\<close>

lemma toObject_loop_agrees:
  "verb_at h this = Some v \<Longrightarrow> object_at h obj = Some ob \<Longrightarrow>
   (case toObject_each U v sch ob of
      Inl e \<Rightarrow> \<exists>h'. toObject_loop U this obj sch h = Some (Inl e, h')
    | Inr ob' \<Rightarrow> \<exists>h'. toObject_loop U this obj sch h = Some (Inr (Ref obj), h')
          \<and> object_at h' obj = Some ob')"
proof (induction sch arbitrary: h ob)
  case Nil
  then show ?case by simp
next
  case (Cons s rest)
  have ne: "this \<noteq> obj"
    using Cons.prems by (auto simp: verb_at_def object_at_def split: if_splits cell.splits)
  show ?case
  proof (cases "toObject U (get_prop (field_values v) (name s))")
    case (Inl e)
    then show ?thesis using Cons.prems by simp
  next
    case (Inr x)
    let ?ob = "ob\<lparr>obj_props := set_prop (name s) x (obj_props ob)\<rparr>"
    let ?h = "h[obj := ObjectCell ?ob]"
    have v: "verb_at ?h this = Some v"
      using Cons.prems(1) ne by (simp add: verb_at_update)
    have o: "object_at ?h obj = Some ?ob"
      using Cons.prems(2) by (simp add: object_at_update object_at_length)
    have loop: "toObject_loop U this obj (s # rest) h = toObject_loop U this obj rest ?h"
      using Cons.prems Inr by simp
    have each: "toObject_each U v (s # rest) ob = toObject_each U v rest ?ob"
      using Inr by simp
    show ?thesis
      unfolding loop each using v o by (rule Cons.IH)
  qed
qed

lemma toObject_at_agrees:
  assumes "verb_at h this = Some v"
  shows "case Verb_toObject U v of
      Inl e \<Rightarrow> \<exists>h'. toObject_at U this h = Some (Inl e, h')
    | Inr ob \<Rightarrow> \<exists>h'. toObject_at U this h = Some (Inr (Ref (length h)), h')
          \<and> object_at h' (length h) = Some ob"
proof -
  let ?ob = "\<lparr>obj_verb = verb v, obj_props = []\<rparr>"
  have "verb_at (h @ [ObjectCell ?ob]) this = Some v"
    using assms by (rule verb_at_append)
  moreover have "object_at (h @ [ObjectCell ?ob]) (length h) = Some ?ob"
    by (simp add: object_at_def)
  ultimately show ?thesis
    using toObject_loop_agrees [of "h @ [ObjectCell ?ob]" this v "length h" ?ob U "schema v"] assms
    by (simp add: toObject_at_def alloc_def Verb_toObject_def split: sum.splits)
qed

lemma toAST_loop_agrees:
  "verb_at h this = Some v \<Longrightarrow> tree_at h obj = Some ob \<Longrightarrow>
   (case toAST_each toAST v sch ob of
      Inl e \<Rightarrow> \<exists>h'. toAST_loop toAST this obj sch h = Some (Inl e, h')
    | Inr ob' \<Rightarrow> \<exists>h'. toAST_loop toAST this obj sch h = Some (Inr (Ref obj), h')
          \<and> tree_at h' obj = Some ob')"
proof (induction sch arbitrary: h ob)
  case Nil
  then show ?case by simp
next
  case (Cons s rest)
  have ne: "this \<noteq> obj"
    using Cons.prems by (auto simp: verb_at_def tree_at_def split: if_splits cell.splits)
  show ?case
  proof (cases "toAST (get_prop (field_values v) (name s)) (type s) (props s)")
    case (Inl e)
    then show ?thesis using Cons.prems by simp
  next
    case (Inr t)
    let ?ob = "ob\<lparr>ast_props := AList.update (name s) t (ast_props ob)\<rparr>"
    let ?h = "h[obj := TreeCell ?ob]"
    have v: "verb_at ?h this = Some v"
      using Cons.prems(1) ne by (simp add: verb_at_update)
    have o: "tree_at ?h obj = Some ?ob"
      using Cons.prems(2) by (simp add: tree_at_update tree_at_length)
    have loop: "toAST_loop toAST this obj (s # rest) h = toAST_loop toAST this obj rest ?h"
      using Cons.prems Inr by simp
    have each: "toAST_each toAST v (s # rest) ob = toAST_each toAST v rest ?ob"
      using Inr by simp
    show ?thesis
      unfolding loop each using v o by (rule Cons.IH)
  qed
qed

lemma toAST_at_agrees:
  assumes "verb_at h this = Some v"
  shows "case Verb_toAST toAST v of
      Inl e \<Rightarrow> \<exists>h'. toAST_at toAST this h = Some (Inl e, h')
    | Inr ob \<Rightarrow> \<exists>h'. toAST_at toAST this h = Some (Inr (Ref (length h)), h')
          \<and> tree_at h' (length h) = Some ob"
proof -
  let ?ob = "\<lparr>ast_verb = verb v, ast_props = []\<rparr>"
  have "verb_at (h @ [TreeCell ?ob]) this = Some v"
    using assms by (rule verb_at_append)
  moreover have "tree_at (h @ [TreeCell ?ob]) (length h) = Some ?ob"
    by (simp add: tree_at_def)
  ultimately show ?thesis
    using toAST_loop_agrees [of "h @ [TreeCell ?ob]" this v "length h" ?ob toAST "schema v"] assms
    by (simp add: toAST_at_def alloc_def Verb_toAST_def split: sum.splits)
qed


section \<open>The round trip\<close>

lemma toObject_each_zip:
  "distinct (map name sch) \<Longrightarrow> (\<forall>s \<in> set sch. name s \<notin> fst ` set (obj_props obj)) \<Longrightarrow>
   toObject_each U this sch obj =
     (case map_result (\<lambda>s. toObject U (get_prop (field_values this) (name s))) sch of
        Inl e \<Rightarrow> Inl e
      | Inr xs \<Rightarrow> Inr (obj\<lparr>obj_props := obj_props obj @ zip (map name sch) xs\<rparr>))"
proof (induction sch arbitrary: obj)
  case Nil
  then show ?case by simp
next
  case (Cons s rest)
  show ?case
  proof (cases "toObject U (get_prop (field_values this) (name s))")
    case (Inl e)
    then show ?thesis by simp
  next
    case (Inr x)
    let ?obj = "obj\<lparr>obj_props := obj_props obj @ [(name s, x)]\<rparr>"
    have fresh: "name s \<notin> fst ` set (obj_props obj)" using Cons.prems(2) by simp
    have d: "distinct (map name rest)" using Cons.prems(1) by simp
    have f: "\<forall>t \<in> set rest. name t \<notin> fst ` set (obj_props ?obj)"
      using Cons.prems by (auto simp: image_iff)
    have step: "toObject_each U this (s # rest) obj = toObject_each U this rest ?obj"
      using Inr fresh by (simp add: set_prop_def update_fresh)
    show ?thesis
      unfolding step Cons.IH [OF d f]
      by (simp add: Inr split: sum.splits)
  qed
qed

lemma get_prop_Cons:
  "get_prop ((k, x) # ps) k' = (if k' = k then x else get_prop ps k')"
  by (simp add: get_prop_def)

lemma get_prop_zip:
  "distinct ks \<Longrightarrow> length xs = length ks \<Longrightarrow> map (get_prop (zip ks xs)) ks = xs"
proof (induction ks arbitrary: xs)
  case Nil
  then show ?case by simp
next
  case (Cons k ks)
  then obtain x xs' where xs: "xs = x # xs'"
    by (cases xs) auto
  with Cons.prems have "map (get_prop (zip ks xs')) ks = xs'"
    using Cons.IH by simp
  moreover have "map (get_prop ((k, x) # zip ks xs')) ks = map (get_prop (zip ks xs')) ks"
    using Cons.prems(1) by (auto simp: get_prop_Cons)
  ultimately have tail: "map (get_prop ((k, x) # zip ks xs')) ks = xs'"
    by simp
  have head: "get_prop ((k, x) # zip ks xs') k = x"
    by (simp add: get_prop_Cons)
  show ?case
    unfolding xs by (simp only: zip_Cons_Cons list.map head tail)
qed

lemma map_result_comp: "map_result f (map g xs) = map_result (\<lambda>x. f (g x)) xs"
  by (induction xs) (auto split: sum.splits)

text \<open>Two runs agree when they agree position by position.\<close>

lemma map_result_pointwise:
  assumes "length ps = length qs"
    and "\<forall>n < length ps. f (ps ! n) = g (qs ! n)"
  shows "map_result f ps = map_result g qs"
  using assms
proof (induction ps arbitrary: qs)
  case Nil
  then show ?case by simp
next
  case (Cons p ps)
  then obtain q qs' where qs: "qs = q # qs'"
    by (cases qs) auto
  have "f p = g q"
    using Cons.prems(2) qs by auto
  moreover have "map_result f ps = map_result g qs'"
  proof (rule Cons.IH)
    show "length ps = length qs'"
      using Cons.prems(1) qs by simp
    show "\<forall>n < length ps. f (ps ! n) = g (qs' ! n)"
      using Cons.prems(2) qs by auto
  qed
  ultimately show ?case
    using qs by (auto split: sum.splits)
qed

lemma stored_by_position:
  assumes "length ys = length sch"
  shows "map_result (stored U ys) (enumerate 0 sch) = map_result (normalized_or_default U) (zip sch ys)"
proof (rule map_result_pointwise)
  show "length (enumerate 0 sch) = length (zip sch ys)"
    using assms by simp
  show "\<forall>n < length (enumerate 0 sch).
      stored U ys (enumerate 0 sch ! n) = normalized_or_default U (zip sch ys ! n)"
    using assms
    by (simp add: stored_def normalized_or_default_def nth_enumerate_eq param_at_def
        normalize_normalizer_for unless_undefined_def split: sum.splits)
qed

lemma rebuilt_composed:
  "map_result (\<lambda>s. rebuilt U s (g s)) sch = Inr zs \<longleftrightarrow>
   (\<exists>xs ys. map_result (\<lambda>s. toObject U (g s)) sch = Inr xs
      \<and> map_result (fromObject U) xs = Inr ys
      \<and> map_result (normalized_or_default U) (zip sch ys) = Inr zs)"
proof (induction sch arbitrary: zs)
  case Nil
  then show ?case by auto
next
  case (Cons s rest)
  show ?case
  proof (cases "toObject U (g s)")
    case (Inl e)
    then show ?thesis by (simp add: rebuilt_def)
  next
    case x: (Inr x)
    show ?thesis
    proof (cases "fromObject U x")
      case (Inl e)
      then show ?thesis using x by (auto simp: rebuilt_def split: sum.splits)
    next
      case y: (Inr y)
      show ?thesis
      proof (cases "normalized_or_default U (s, y)")
        case (Inl e)
        then show ?thesis using x y by (auto simp: rebuilt_def split: sum.splits)
      next
        case z: (Inr z)
        have here: "rebuilt U s (g s) = Inr z"
          using x y z by (simp add: rebuilt_def)
        show ?thesis
        proof
          assume "map_result (\<lambda>s. rebuilt U s (g s)) (s # rest) = Inr zs"
          then obtain zs' where zs: "zs = z # zs'"
            and r: "map_result (\<lambda>s. rebuilt U s (g s)) rest = Inr zs'"
            using here by (auto split: sum.splits)
          from r Cons.IH [of zs'] obtain xs ys where
            "map_result (\<lambda>s. toObject U (g s)) rest = Inr xs"
            "map_result (fromObject U) xs = Inr ys"
            "map_result (normalized_or_default U) (zip rest ys) = Inr zs'"
            by blast
          then have "map_result (\<lambda>s. toObject U (g s)) (s # rest) = Inr (x # xs)
            \<and> map_result (fromObject U) (x # xs) = Inr (y # ys)
            \<and> map_result (normalized_or_default U) (zip (s # rest) (y # ys)) = Inr zs"
            using x y z zs by simp
          then show "\<exists>xs ys. map_result (\<lambda>s. toObject U (g s)) (s # rest) = Inr xs
            \<and> map_result (fromObject U) xs = Inr ys
            \<and> map_result (normalized_or_default U) (zip (s # rest) ys) = Inr zs"
            by blast
        next
          assume "\<exists>xs ys. map_result (\<lambda>s. toObject U (g s)) (s # rest) = Inr xs
            \<and> map_result (fromObject U) xs = Inr ys
            \<and> map_result (normalized_or_default U) (zip (s # rest) ys) = Inr zs"
          then obtain xs ys where
            a: "map_result (\<lambda>s. toObject U (g s)) (s # rest) = Inr xs"
            and b: "map_result (fromObject U) xs = Inr ys"
            and c: "map_result (normalized_or_default U) (zip (s # rest) ys) = Inr zs"
            by blast
          from a x obtain xs' where xs: "xs = x # xs'"
            and a': "map_result (\<lambda>s. toObject U (g s)) rest = Inr xs'"
            by (auto split: sum.splits)
          from b xs y obtain ys' where ys: "ys = y # ys'"
            and b': "map_result (fromObject U) xs' = Inr ys'"
            by (auto split: sum.splits)
          from c ys z obtain zs' where zs: "zs = z # zs'"
            and c': "map_result (normalized_or_default U) (zip rest ys') = Inr zs'"
            by (auto split: sum.splits)
          from a' b' c' Cons.IH [of zs']
          have "map_result (\<lambda>s. rebuilt U s (g s)) rest = Inr zs'"
            by blast
          then show "map_result (\<lambda>s. rebuilt U s (g s)) (s # rest) = Inr zs"
            using here zs by simp
        qed
      qed
    qed
  qed
qed

text \<open>
  The round trip through \<^verbatim>\<open>toObject\<close> and \<^verbatim>\<open>Verb.from\<close>, for a verb of a registered class
  whose schema names its entries apart, and for any helpers: it succeeds exactly when
  every stored value can be serialized, deserialized and normalized again, and the verb
  it returns has the same name and schema and holds these rebuilt values. Whether a
  rebuilt value is the stored one, or evaluates like it, is decided by the helpers of
  \<^verbatim>\<open>./util\<close> alone.
\<close>

lemma round_trip_field_by_field:
  assumes reg: "map_of Verbs (verb v) = Some C"
    and cls: "or_empty (class_schema C) = schema v" "class_verb C = verb v"
    and d: "distinct (map name (schema v))"
  shows "(\<exists>obj. Verb_toObject U v = Inr obj \<and> Verb_from U obj = Inr (Instance v'))
     \<longleftrightarrow> (\<exists>zs. map_result (\<lambda>s. rebuilt U s (get_prop (field_values v) (name s))) (schema v) = Inr zs
            \<and> v' = \<lparr>verb = verb v, schema = schema v,
                     field_values = zip (map name (schema v)) zs\<rparr>)"
proof -
  let ?g = "\<lambda>s. get_prop (field_values v) (name s)"
  let ?names = "map name (schema v)"
  have ser: "Verb_toObject U v =
      (case map_result (\<lambda>s. toObject U (?g s)) (schema v) of
         Inl e \<Rightarrow> Inl e
       | Inr xs \<Rightarrow> Inr \<lparr>obj_verb = verb v, obj_props = zip ?names xs\<rparr>)"
    using toObject_each_zip [OF d, of "\<lparr>obj_verb = verb v, obj_props = []\<rparr>" U v]
    by (simp add: Verb_toObject_def split: sum.splits)
  have des: "Verb_from U \<lparr>obj_verb = verb v, obj_props = zip ?names xs\<rparr> =
      (case map_result (fromObject U) xs of
         Inl e \<Rightarrow> Inl e
       | Inr ys \<Rightarrow>
           (case map_result (normalized_or_default U) (zip (schema v) ys) of
              Inl e \<Rightarrow> Inl e
            | Inr zs \<Rightarrow> Inr (Instance \<lparr>verb = verb v, schema = schema v,
                     field_values = zip ?names zs\<rparr>)))"
    if len: "length xs = length (schema v)" for xs
  proof -
    have "map (get_prop (zip ?names xs)) ?names = xs"
      by (rule get_prop_zip [OF d]) (simp add: len)
    then have params: "map_result (\<lambda>s. fromObject U (get_prop (zip ?names xs) (name s))) (schema v)
        = map_result (fromObject U) xs"
      using map_result_comp [of "fromObject U" "\<lambda>s. get_prop (zip ?names xs) (name s)" "schema v"]
      by (simp add: comp_def)
    have built: "new U C ys =
        (case map_result (normalized_or_default U) (zip (schema v) ys) of
           Inl e \<Rightarrow> Inl e
         | Inr zs \<Rightarrow> Inr \<lparr>verb = verb v, schema = schema v, field_values = zip ?names zs\<rparr>)"
      if "length ys = length (schema v)" for ys
      using init_fields_construct [OF d, of "[]" U ys 0] stored_by_position [OF that, of U] cls
      by (simp add: new_def Verb_constructor_def or_empty_def split: sum.splits)
    show ?thesis
    proof (cases "map_result (fromObject U) xs")
      case (Inl e)
      then show ?thesis
        using reg cls params by (simp add: Verb_from_def Verbs_get_def)
    next
      case (Inr ys)
      then have "length ys = length (schema v)"
        using len by (simp add: map_result_length)
      from built [OF this] Inr show ?thesis
        using reg cls params by (simp add: Verb_from_def Verbs_get_def split: sum.splits)
    qed
  qed
  show ?thesis
  proof
    assume "\<exists>obj. Verb_toObject U v = Inr obj \<and> Verb_from U obj = Inr (Instance v')"
    then obtain obj where o: "Verb_toObject U v = Inr obj"
      and f: "Verb_from U obj = Inr (Instance v')"
      by blast
    from o ser obtain xs where xs: "map_result (\<lambda>s. toObject U (?g s)) (schema v) = Inr xs"
      and obj: "obj = \<lparr>obj_verb = verb v, obj_props = zip ?names xs\<rparr>"
      by (auto split: sum.splits)
    have len: "length xs = length (schema v)"
      using xs by (rule map_result_length)
    from f obj des [OF len] obtain ys zs where
      "map_result (fromObject U) xs = Inr ys"
      "map_result (normalized_or_default U) (zip (schema v) ys) = Inr zs"
      "v' = \<lparr>verb = verb v, schema = schema v, field_values = zip ?names zs\<rparr>"
      by (auto split: sum.splits)
    with xs rebuilt_composed [of U ?g "schema v" zs]
    show "\<exists>zs. map_result (\<lambda>s. rebuilt U s (?g s)) (schema v) = Inr zs
            \<and> v' = \<lparr>verb = verb v, schema = schema v, field_values = zip ?names zs\<rparr>"
      by blast
  next
    assume "\<exists>zs. map_result (\<lambda>s. rebuilt U s (?g s)) (schema v) = Inr zs
            \<and> v' = \<lparr>verb = verb v, schema = schema v, field_values = zip ?names zs\<rparr>"
    then obtain zs where z: "map_result (\<lambda>s. rebuilt U s (?g s)) (schema v) = Inr zs"
      and v': "v' = \<lparr>verb = verb v, schema = schema v, field_values = zip ?names zs\<rparr>"
      by blast
    from z rebuilt_composed [of U ?g "schema v" zs] obtain xs ys where
      xs: "map_result (\<lambda>s. toObject U (?g s)) (schema v) = Inr xs"
      and ys: "map_result (fromObject U) xs = Inr ys"
      and zs: "map_result (normalized_or_default U) (zip (schema v) ys) = Inr zs"
      by blast
    have len: "length xs = length (schema v)"
      using xs by (rule map_result_length)
    have "Verb_toObject U v = Inr \<lparr>obj_verb = verb v, obj_props = zip ?names xs\<rparr>"
      using ser xs by simp
    moreover have "Verb_from U \<lparr>obj_verb = verb v, obj_props = zip ?names xs\<rparr> = Inr (Instance v')"
      using des [OF len] ys zs v' by simp
    ultimately show "\<exists>obj. Verb_toObject U v = Inr obj \<and> Verb_from U obj = Inr (Instance v')"
      by blast
  qed
qed

lemma map_result_all: "(\<forall>x \<in> set xs. f x = Inr (g x)) \<Longrightarrow> map_result f xs = Inr (map g xs)"
  by (induction xs) auto

lemma get_prop_own:
  "distinct (map fst ps) \<Longrightarrow> map (\<lambda>p. get_prop ps (fst p)) ps = map snd ps"
proof (induction ps)
  case Nil
  then show ?case by simp
next
  case (Cons p ps)
  obtain k x where p: "p = (k, x)"
    by (cases p)
  have "map (\<lambda>q. get_prop ((k, x) # ps) (fst q)) ps = map (\<lambda>q. get_prop ps (fst q)) ps"
    using Cons.prems p by (auto simp: get_prop_Cons)
  moreover have "map (\<lambda>q. get_prop ps (fst q)) ps = map snd ps"
    using Cons by simp
  ultimately show ?case
    using p by (simp add: get_prop_Cons)
qed

text \<open>
  When every stored value is rebuilt as itself, \<^verbatim>\<open>Verb.from(v.toObject())\<close> is the verb
  \<open>v\<close> again, and so evaluates as \<open>v\<close> does.
\<close>

lemma round_trip_identity:
  assumes reg: "map_of Verbs (verb v) = Some C"
    and cls: "or_empty (class_schema C) = schema v" "class_verb C = verb v"
    and d: "distinct (map name (schema v))"
    and fields: "map fst (field_values v) = map name (schema v)"
    and same: "\<forall>s \<in> set (schema v).
        rebuilt U s (get_prop (field_values v) (name s)) = Inr (get_prop (field_values v) (name s))"
  shows "\<exists>obj. Verb_toObject U v = Inr obj \<and> Verb_from U obj = Inr (Instance v)"
proof -
  let ?g = "\<lambda>s. get_prop (field_values v) (name s)"
  have "map_result (\<lambda>s. rebuilt U s (?g s)) (schema v) = Inr (map ?g (schema v))"
    using same by (rule map_result_all)
  moreover have "zip (map name (schema v)) (map ?g (schema v)) = field_values v"
  proof -
    have "map ?g (schema v) = map (get_prop (field_values v)) (map name (schema v))"
      by simp
    also have "\<dots> = map (\<lambda>p. get_prop (field_values v) (fst p)) (field_values v)"
      unfolding fields [symmetric] by simp
    also have "\<dots> = map snd (field_values v)"
      using d fields by (simp add: get_prop_own)
    finally show ?thesis
      unfolding fields [symmetric] by (simp add: zip_map_fst_snd)
  qed
  then have "v = \<lparr>verb = verb v, schema = schema v,
      field_values = zip (map name (schema v)) (map ?g (schema v))\<rparr>"
    by simp
  ultimately show ?thesis
    using round_trip_field_by_field [OF reg cls d, of U v] by blast
qed


end
